theory Spec2Isabelle
  imports Main "HOL-Library.Sublist" "HOL-Library.Multiset"
begin

section \<open>Data model\<close>

text \<open>
  The exporter (class \<open>Matlab\<close> of \<open>matlab.py\<close>) reads a DAE model through
  \<open>get_model_name()\<close>, \<open>get_parameters()\<close>, \<open>get_states()\<close> and \<open>get_options()\<close>.
  States and parameters are dictionaries with fixed keys; they are records here.  The
  numbers a dictionary carries (\<open>value\<close>, \<open>initialCondition\<close>, the option values) are
  only ever formatted into the output text, so each record holds the text that Python's
  \<open>str\<close> gives for the number.
\<close>

text \<open>
  Modelled from the spec: the enumeration \<open>StateType\<close> is declared in
  \<open>sbml2dae.dae_model\<close>, a module that \<open>matlab.py\<close> imports and that lies outside the
  file embedded here.  Section 3 of the specification names the kinds ODE, ALGEBRAIC and
  ASSIGNMENT (spelled \<open>ASSIGMENT\<close> in the source), the three that \<open>matlab.py\<close> compares
  with.  The exporter never tests a type exhaustively: each test is a comparison with
  one or two of the three, followed by a skip.  The fourth constructor, \<open>UNKOWN\<close>, stands
  for a value of the enumeration that is none of the three, so that a state which fails
  every comparison is a state of the model.
\<close>

datatype StateType = ODE | ALGEBRAIC | ASSIGMENT | UNKOWN

record state =
  id_s :: string
  type_s :: StateType
  equation :: string
  initialCondition :: string
  context_s :: string

record parameter =
  id_p :: string
  value_p :: string

record dae_model =
  get_model_name :: string
  get_parameters :: "parameter list"
  get_states_dae :: "state list"
  get_options :: "(string \<times> string) list"

record Matlab =
  dae :: dae_model
  output_path :: string

section \<open>Tokenizer\<close>

text \<open>
  \<open>string2matlab\<close> and \<open>get_states\<close> read a formula through \<open>tokenize\<close> of the
  Python standard library, which is not part of the repository.  A token is the pair
  \<open>(toknum, tokval)\<close> the two loops look at.  The generator is consumed to its end by
  both loops and neither has an effect before it ends, so a failure anywhere in the
  token stream is the failure of the whole call: the stream is a list, or an error.
\<close>

datatype toknum = ENCODING | NAME | NUMBER | OP | ENDMARKER

type_synonym token = "toknum \<times> string"

text \<open>
  The one error of the model: the one the tokenizer raises, under the name the
  specification gives it.  The source defines and raises no error of its own.
\<close>

datatype error = MalformedExpression

definition is_name_start :: "char \<Rightarrow> bool" where
  "is_name_start c \<longleftrightarrow>
     c \<in> set ''abcdefghijklmnopqrstuvwxyzABCDEFGHIJKLMNOPQRSTUVWXYZ_''"

definition is_digit :: "char \<Rightarrow> bool" where
  "is_digit c \<longleftrightarrow> c \<in> set ''0123456789''"

definition is_name_char :: "char \<Rightarrow> bool" where
  "is_name_char c \<longleftrightarrow> is_name_start c \<or> is_digit c"

definition is_op_char :: "char \<Rightarrow> bool" where
  "is_op_char c \<longleftrightarrow> c \<in> set ''+-*/^(),''"

definition is_space :: "char \<Rightarrow> bool" where
  "is_space c \<longleftrightarrow> c = CHR '' '' \<or> c = CHR 0x09"

text \<open>
  Modelled from the spec: the lexical analysis of a formula, which the source delegates
  to the standard library.  Section 4.1 of the specification gives its contract: names,
  numeric literals, the operators \<open>+ - * / ^\<close>, parentheses and comma, then an end
  marker; a \<open>MalformedExpression\<close> error on any character outside this grammar.  Blanks
  separate tokens and belong to none.  A numeric literal is a run of digits with an
  optional fraction, or a fraction that starts with the point; a point that starts no
  fraction is an invalid literal.  Operators and punctuation both carry the kind \<open>OP\<close>,
  the one kind the source tests for them.
\<close>

function lexer :: "string \<Rightarrow> error + token list" where
  "lexer [] = Inr [(ENDMARKER, [])]"
| "lexer (c # cs) =
     (if is_space c then lexer cs
      else if is_name_start c then
        (case lexer (dropWhile is_name_char cs) of
           Inl e \<Rightarrow> Inl e
         | Inr g \<Rightarrow> Inr ((NAME, c # takeWhile is_name_char cs) # g))
      else if is_digit c then
        (let ds = takeWhile is_digit cs; r = dropWhile is_digit cs in
         case r of
           d # r' \<Rightarrow>
             (if d = CHR ''.'' then
                (case lexer (dropWhile is_digit r') of
                   Inl e \<Rightarrow> Inl e
                 | Inr g \<Rightarrow> Inr ((NUMBER, c # ds @ d # takeWhile is_digit r') # g))
              else
                (case lexer r of Inl e \<Rightarrow> Inl e | Inr g \<Rightarrow> Inr ((NUMBER, c # ds) # g)))
         | [] \<Rightarrow> Inr [(NUMBER, c # ds), (ENDMARKER, [])])
      else if c = CHR ''.'' then
        (case cs of
           d # r \<Rightarrow>
             (if is_digit d then
                (case lexer (dropWhile is_digit r) of
                   Inl e \<Rightarrow> Inl e
                 | Inr g \<Rightarrow> Inr ((NUMBER, c # d # takeWhile is_digit r) # g))
              else Inl MalformedExpression)
         | [] \<Rightarrow> Inl MalformedExpression)
      else if is_op_char c then
        (case lexer cs of Inl e \<Rightarrow> Inl e | Inr g \<Rightarrow> Inr ((OP, [c]) # g))
      else Inl MalformedExpression)"
  by pat_completeness auto
termination
proof (relation "measure length")
  show "wf (measure length)" by simp
next
  fix c :: char and cs x y :: string and d :: char and r' :: string
  assume "x = takeWhile is_digit cs" "y = dropWhile is_digit cs" "y = d # r'"
  then have "length (dropWhile is_digit cs) = Suc (length r')"
    by (metis length_Cons)
  then have "length r' < length cs"
    using length_dropWhile_le [of is_digit cs] by linarith
  moreover have "length (dropWhile is_digit r') \<le> length r'"
    by (rule length_dropWhile_le)
  ultimately show "(dropWhile is_digit r', c # cs) \<in> measure length" by simp
qed (auto simp: le_imp_less_Suc length_dropWhile_le
       intro: le_less_trans [OF length_dropWhile_le])

text \<open>
  Modelled from the spec: \<open>tokenize\<close>, the standard-library function that the source
  calls.  Its stream is the encoding token that it always yields first (the source skips
  it by name), then the tokens of the formula as section 4.1 describes them.  The
  tokens that the library adds at the end of a line carry the empty text, as the end
  marker does, and add nothing to the result of either loop.
\<close>

definition tokenize :: "string \<Rightarrow> error + token list" where
  "tokenize math_expr =
     (case lexer math_expr of Inl e \<Rightarrow> Inl e | Inr g \<Rightarrow> Inr ((ENCODING, ''utf-8'') # g))"

section \<open>Expression translator and state-reference extractor\<close>

text \<open>The loop of \<open>string2matlab\<close> over the tokens, with its accumulator \<open>result\<close>.\<close>

fun string2matlab_loop :: "string list \<Rightarrow> token list \<Rightarrow> string \<Rightarrow> string" where
  "string2matlab_loop params [] result = result"
| "string2matlab_loop params ((toknum, tokval) # g) result =
     (if toknum = ENCODING then string2matlab_loop params g result
      else if toknum = NAME \<and> tokval \<in> set params then
        string2matlab_loop params g (result @ ''p.'' @ tokval)
      else if toknum = OP \<and> tokval \<in> set [''*'', ''/'', ''^''] then
        string2matlab_loop params g (result @ ''.'' @ tokval)
      else if toknum = OP \<and> tokval \<in> set [''+'', ''-''] then
        string2matlab_loop params g (result @ '' '' @ tokval @ '' '')
      else string2matlab_loop params g (result @ tokval))"

definition string2matlab :: "Matlab \<Rightarrow> string \<Rightarrow> error + string" where
  "string2matlab self math_expr =
     (let params = map id_p (get_parameters (dae self)) in
      case tokenize math_expr of
        Inl e \<Rightarrow> Inl e
      | Inr g \<Rightarrow> Inr (string2matlab_loop params g []))"

text \<open>The loop of \<open>get_states\<close> over the tokens, with its accumulator \<open>result\<close>.\<close>

fun get_states_loop :: "string list \<Rightarrow> token list \<Rightarrow> string list \<Rightarrow> string list" where
  "get_states_loop states [] result = result"
| "get_states_loop states ((toknum, tokval) # g) result =
     (if toknum = NAME \<and> tokval \<in> set states then
        get_states_loop states g (result @ [tokval])
      else get_states_loop states g result)"

definition get_states :: "Matlab \<Rightarrow> string \<Rightarrow> error + string list" where
  "get_states self math_expr =
     (let states = map id_s (get_states_dae (dae self)) in
      case tokenize math_expr of
        Inl e \<Rightarrow> Inl e
      | Inr g \<Rightarrow> Inr (get_states_loop states g []))"

section \<open>Output file\<close>

text \<open>
  The object that \<open>open(filepath, "w")\<close> returns: its path, the text written so far and
  whether it has been closed.  The writers share it and mutate it; here each takes it and
  returns it updated.  A call that raises leaves the object as it was at that moment, so
  an error result carries the file too.  Failures of the operating system (a missing
  directory, a full disk) are outside the model.
\<close>

record file_obj =
  name_f :: string
  content :: string
  closed :: bool

definition open_w :: "string \<Rightarrow> file_obj" where
  "open_w filepath = \<lparr>name_f = filepath, content = [], closed = False\<rparr>"

definition f_write :: "file_obj \<Rightarrow> string \<Rightarrow> file_obj" where
  "f_write f s = f\<lparr>content := content f @ s\<rparr>"

definition f_close :: "file_obj \<Rightarrow> file_obj" where
  "f_close f = f\<lparr>closed := True\<rparr>"

abbreviation nl :: string where
  "nl \<equiv> [CHR 0x0A]"

abbreviation tab :: string where
  "tab \<equiv> [CHR 0x09]"

abbreviation tab2 :: string where
  "tab2 \<equiv> [CHR 0x09, CHR 0x09]"

abbreviation tab3 :: string where
  "tab3 \<equiv> [CHR 0x09, CHR 0x09, CHR 0x09]"

abbreviation tab4 :: string where
  "tab4 \<equiv> [CHR 0x09, CHR 0x09, CHR 0x09, CHR 0x09]"

text \<open>Python's \<open>str\<close> on a non-negative integer: its decimal digits.\<close>

fun str_nat :: "nat \<Rightarrow> string" where
  "str_nat n =
     (if n < 10 then [''0123456789'' ! n]
      else str_nat (n div 10) @ [''0123456789'' ! (n mod 10)])"

declare str_nat.simps [simp del]

section \<open>Dependency resolver\<close>

text \<open>
  \<open>write_local_states\<close>, lines 192 to 230.  The first \<^verbatim>\<open>for\<close> loop writes the ODE and
  algebraic states and appends their ids to \<open>known_states\<close>; \<open>i\<close> counts them from 1.
\<close>

fun write_local_states_ode ::
  "state list \<Rightarrow> nat \<Rightarrow> string list \<Rightarrow> file_obj \<Rightarrow> nat \<times> string list \<times> file_obj" where
  "write_local_states_ode [] i known_states f = (i, known_states, f)"
| "write_local_states_ode (state # rest) i known_states f =
     (if \<not> (type_s state \<in> set [ODE, ALGEBRAIC]) then
        write_local_states_ode rest i known_states f
      else
        write_local_states_ode rest (i + 1) (known_states @ [id_s state])
          (f_write f (tab3 @ id_s state @ '' = x('' @ str_nat i @ '',:);'' @ nl)))"

text \<open>
  The inner \<^verbatim>\<open>for\<close> loop, lines 214 to 228: one scan over all states in declaration
  order.  \<open>get_states\<close> and \<open>string2matlab\<close> may raise; the scan then stops with the file
  as written so far.
\<close>

fun write_local_states_scan ::
  "Matlab \<Rightarrow> state list \<Rightarrow> string list \<Rightarrow> file_obj
     \<Rightarrow> (error \<times> file_obj) + (string list \<times> file_obj)" where
  "write_local_states_scan self [] known_states f = Inr (known_states, f)"
| "write_local_states_scan self (state # rest) known_states f =
     (if \<not> (type_s state = ASSIGMENT) then
        write_local_states_scan self rest known_states f
      else if id_s state \<in> set known_states then
        write_local_states_scan self rest known_states f
      else
        (case get_states self (equation state) of
           Inl e \<Rightarrow> Inl (e, f)
         | Inr dependencies \<Rightarrow>
             (if list_all (\<lambda>elem. elem \<in> set known_states) dependencies then
                (case string2matlab self (equation state) of
                   Inl e \<Rightarrow> Inl (e, f)
                 | Inr equation' \<Rightarrow>
                     write_local_states_scan self rest (known_states @ [id_s state])
                       (f_write f (tab3 @ id_s state @ '' = '' @ equation' @ '';'' @ nl)))
              else write_local_states_scan self rest known_states f)))"

text \<open>
  The \<^verbatim>\<open>while\<close> loop, line 213.  Nothing in the source bounds the number of scans, so
  the loop is a partial function: \<open>None\<close> is a run that never leaves the loop.
\<close>

partial_function (option) write_local_states_while ::
  "Matlab \<Rightarrow> nat \<Rightarrow> string list \<Rightarrow> file_obj
     \<Rightarrow> ((error \<times> file_obj) + (string list \<times> file_obj)) option" where
  "write_local_states_while self states_num known_states f =
     (if length known_states \<noteq> states_num then
        (case write_local_states_scan self (get_states_dae (dae self)) known_states f of
           Inl ef \<Rightarrow> Some (Inl ef)
         | Inr kf \<Rightarrow> write_local_states_while self states_num (fst kf) (snd kf))
      else Some (Inr (known_states, f)))"

declare write_local_states_while.simps [code]

text \<open>
  The whole of \<open>write_local_states\<close>, with the local list \<open>known_states\<close> as it stands
  when the \<^verbatim>\<open>while\<close> loop is left: the order in which the states are written.
\<close>

definition write_local_states_known ::
  "Matlab \<Rightarrow> file_obj \<Rightarrow> ((error \<times> file_obj) + (string list \<times> file_obj)) option" where
  "write_local_states_known self f =
     (let known_states = [];
          states_num = length (get_states_dae (dae self));
          f = f_write f (tab3 @ ''% ODE and algebraic states:'' @ nl);
          (i, known_states, f) =
             write_local_states_ode (get_states_dae (dae self)) 1 known_states f;
          f = f_write f nl;
          f = f_write f (tab3 @ ''% Assigment states:'' @ nl)
      in case write_local_states_while self states_num known_states f of
           None \<Rightarrow> None
         | Some (Inl ef) \<Rightarrow> Some (Inl ef)
         | Some (Inr (known_states, f)) \<Rightarrow> Some (Inr (known_states, f_write f nl)))"

definition write_local_states :: "Matlab \<Rightarrow> file_obj \<Rightarrow> ((error \<times> file_obj) + file_obj) option" where
  "write_local_states self f =
     (case write_local_states_known self f of
        None \<Rightarrow> None
      | Some (Inl ef) \<Rightarrow> Some (Inl ef)
      | Some (Inr (known_states, f)) \<Rightarrow> Some (Inr f))"

section \<open>Emitters\<close>

text \<open>
  The remaining methods of the class write fixed text around the resolver's and the
  translator's results.  A run is \<open>None\<close> when it never returns, an error with the file
  as it was when the error was raised, or a result.
\<close>

type_synonym 'a run = "((error \<times> file_obj) + 'a) option"

definition then_run :: "'a run \<Rightarrow> ('a \<Rightarrow> 'b run) \<Rightarrow> 'b run" where
  "then_run r k = (case r of None \<Rightarrow> None | Some (Inl ef) \<Rightarrow> Some (Inl ef) | Some (Inr a) \<Rightarrow> k a)"

abbreviation sq :: string where
  "sq \<equiv> [CHR 0x27]"

abbreviation dq :: string where
  "dq \<equiv> [CHR 0x22]"

definition str_int :: "int \<Rightarrow> string" where
  "str_int i = (if i < 0 then ''-'' @ str_nat (nat (- i)) else str_nat (nat i))"

definition write_warning :: "file_obj \<Rightarrow> nat \<Rightarrow> file_obj" where
  "write_warning f n =
     (let tabs = concat (replicate n tab);
          f = f_write f (tabs @ ''% This file was automatically generated by OneModel.'' @ nl);
          f = f_write f (tabs @ ''% Any changes you make to it will be overwritten'');
          f = f_write f ('' the next time'' @ nl);
          f = f_write f (tabs @ ''% the file is generated.'' @ nl @ nl)
      in f)"

definition write_class_header :: "Matlab \<Rightarrow> file_obj \<Rightarrow> file_obj" where
  "write_class_header self f =
     (let f = f_write f (''classdef '' @ get_model_name (dae self) @ nl);
          f = write_warning f 1;
          f = f_write f (tab @ ''properties'' @ nl);
          f = f_write f (tab2 @ ''p      % Default model parameters.'' @ nl);
          f = f_write f (tab2 @ ''x0     % Default initial conditions.'' @ nl);
          f = f_write f (tab2 @ ''M      % Mass matrix for DAE systems.'' @ nl);
          f = f_write f (tab2 @ ''opts   % Simulation options.'' @ nl);
          f = f_write f (tab @ ''end'' @ nl);
          f = f_write f nl;
          f = f_write f (tab @ ''methods'' @ nl)
      in f)"

definition write_constructor :: "Matlab \<Rightarrow> file_obj \<Rightarrow> file_obj" where
  "write_constructor self f =
     (let f = f_write f (tab2 @ ''function obj = '' @ get_model_name (dae self) @ ''()'' @ nl);
          f = f_write f (tab3 @ ''%% Constructor of '' @ get_model_name (dae self) @ ''.'' @ nl);
          f = f_write f (tab3 @ ''obj.p    = obj.default_parameters();'' @ nl);
          f = f_write f (tab3 @ ''obj.x0   = obj.initial_conditions();'' @ nl);
          f = f_write f (tab3 @ ''obj.M    = obj.mass_matrix();'' @ nl);
          f = f_write f (tab3 @ ''obj.opts = obj.simulation_options();'' @ nl);
          f = f_write f (tab2 @ ''end'' @ nl);
          f = f_write f nl
      in f)"

fun write_default_parameters_loop :: "parameter list \<Rightarrow> file_obj \<Rightarrow> file_obj" where
  "write_default_parameters_loop [] f = f"
| "write_default_parameters_loop (item # rest) f =
     write_default_parameters_loop rest
       (f_write f (tab3 @ ''p.'' @ id_p item @ '' = '' @ value_p item @ '';'' @ nl))"

definition write_default_parameters :: "Matlab \<Rightarrow> file_obj \<Rightarrow> file_obj" where
  "write_default_parameters self f =
     (let f = f_write f (tab2 @ ''function p = default_parameters(~)'' @ nl);
          f = f_write f (tab3 @ ''%% Default parameters value.'' @ nl);
          f = f_write f (tab3 @ ''p = [];'' @ nl);
          f = write_default_parameters_loop (get_parameters (dae self)) f;
          f = f_write f (tab2 @ ''end'' @ nl);
          f = f_write f nl
      in f)"

fun write_initial_conditions_loop :: "state list \<Rightarrow> file_obj \<Rightarrow> file_obj" where
  "write_initial_conditions_loop [] f = f"
| "write_initial_conditions_loop (item # rest) f =
     (if type_s item = ODE then
        write_initial_conditions_loop rest
          (f_write f (tab4 @ initialCondition item @ '' % '' @ id_s item @ nl))
      else if type_s item = ALGEBRAIC then
        write_initial_conditions_loop rest
          (f_write (f_write f (tab4 @ initialCondition item))
             (''% '' @ id_s item @ '' (algebraic)'' @ nl))
      else write_initial_conditions_loop rest f)"

definition write_initial_conditions :: "Matlab \<Rightarrow> file_obj \<Rightarrow> file_obj" where
  "write_initial_conditions self f =
     (let f = f_write f (tab2 @ ''function x0 = initial_conditions(~)'' @ nl);
          f = f_write f (tab3 @ ''%% Default initial conditions.'' @ nl);
          f = f_write f (tab3 @ ''x0 = ['' @ nl);
          f = write_initial_conditions_loop (get_states_dae (dae self)) f;
          f = f_write f (tab3 @ ''];'' @ nl);
          f = f_write f (tab2 @ ''end'' @ nl);
          f = f_write f nl
      in f)"

text \<open>The diagonal of the mass matrix: 1 for an ODE state, 0 for an algebraic one.\<close>

fun mass_matrix_m :: "state list \<Rightarrow> nat list \<Rightarrow> nat list" where
  "mass_matrix_m [] m = m"
| "mass_matrix_m (item # rest) m =
     (if type_s item = ODE then mass_matrix_m rest (m @ [1])
      else if type_s item = ALGEBRAIC then mass_matrix_m rest (m @ [0])
      else mass_matrix_m rest m)"

function write_mass_matrix_rows :: "nat list \<Rightarrow> nat \<Rightarrow> nat \<Rightarrow> file_obj \<Rightarrow> file_obj" where
  "write_mass_matrix_rows m i i_max f =
     (if i < i_max then
        (let f = f_write f tab4;
             f = f_write f (concat (replicate i ''0 ''));
             f = f_write f (str_nat (m ! i) @ '' '');
             f = f_write f (concat (replicate (i_max - i - 1) ''0 ''));
             f = f_write f nl
         in write_mass_matrix_rows m (i + 1) i_max f)
      else f)"
  by pat_completeness auto
termination
  by (relation "measure (\<lambda>(m, i, i_max, f). i_max - i)") auto

declare write_mass_matrix_rows.simps [simp del]

definition write_mass_matrix :: "Matlab \<Rightarrow> file_obj \<Rightarrow> file_obj" where
  "write_mass_matrix self f =
     (let f = f_write f (tab2 @ ''function M = mass_matrix(~)'' @ nl);
          f = f_write f (tab3 @ ''%% Mass matrix for DAE systems.'' @ nl);
          f = f_write f (tab3 @ ''M = ['' @ nl);
          m = mass_matrix_m (get_states_dae (dae self)) [];
          f = write_mass_matrix_rows m 0 (length m) f;
          f = f_write f (tab3 @ ''];'' @ nl);
          f = f_write f (tab2 @ ''end'' @ nl);
          f = f_write f nl
      in f)"

text \<open>
  The options are a dictionary from option names to values; the loop runs over its keys
  in insertion order and looks each one up again.
\<close>

fun write_simulation_options_loop ::
  "(string \<times> string) list \<Rightarrow> string list \<Rightarrow> file_obj \<Rightarrow> file_obj" where
  "write_simulation_options_loop options [] f = f"
| "write_simulation_options_loop options (item # rest) f =
     (let value = (case map_of options item of None \<Rightarrow> ''None'' | Some v \<Rightarrow> v)
      in write_simulation_options_loop options rest
           (f_write f (tab3 @ ''opts.'' @ item @ '' = '' @ value @ '';'' @ nl)))"

definition write_simulation_options :: "Matlab \<Rightarrow> file_obj \<Rightarrow> file_obj" where
  "write_simulation_options self f =
     (let f = f_write f (tab2 @ ''function opts = simulation_options(~)'' @ nl);
          f = f_write f (tab3 @ ''%% Default simulation options.'' @ nl);
          options = get_options (dae self);
          f = write_simulation_options_loop options (map fst options) f;
          f = f_write f (tab2 @ ''end'' @ nl);
          f = f_write f nl
      in f)"

text \<open>The loop of \<open>write_ode\<close> over the states, lines 254 to 267.\<close>

fun write_ode_loop ::
  "Matlab \<Rightarrow> state list \<Rightarrow> nat \<Rightarrow> file_obj \<Rightarrow> (error \<times> file_obj) + file_obj" where
  "write_ode_loop self [] i f = Inr f"
| "write_ode_loop self (item # rest) i f =
     (let string = tab3 @ ''% der('' @ id_s item @ '')'' @ nl in
      if type_s item = ODE then
        (case string2matlab self (equation item) of
           Inl e \<Rightarrow> Inl (e, f)
         | Inr equation' \<Rightarrow>
             write_ode_loop self rest (i + 1)
               (f_write f (string @ tab3 @ ''dx('' @ str_nat i @ '',1) = '' @ equation'
                            @ '';'' @ nl @ nl)))
      else if type_s item = ALGEBRAIC then
        (case string2matlab self (equation item) of
           Inl e \<Rightarrow> Inl (e, f)
         | Inr equation' \<Rightarrow>
             write_ode_loop self rest (i + 1)
               (f_write f (string @ tab3 @ ''dx('' @ str_nat i @ '',1) = '' @ equation'
                            @ '';'' @ nl @ nl)))
      else write_ode_loop self rest i f)"

definition write_ode :: "Matlab \<Rightarrow> file_obj \<Rightarrow> file_obj run" where
  "write_ode self f =
     (let f = f_write f (tab2 @ ''function dx = ode(~,t,x,p)'' @ nl);
          f = f_write f (tab3 @ ''%% Evaluate the ODE.'' @ nl);
          f = f_write f (tab3 @ ''%'' @ nl);
          f = f_write f (tab3 @ ''% Args:'' @ nl);
          f = f_write f (tab3 @ ''%'' @ tab @ '' t Current time in the simulation.'' @ nl);
          f = f_write f (tab3 @ ''%'' @ tab @ '' x Array with the state value.'' @ nl);
          f = f_write f (tab3 @ ''%'' @ tab @ '' p Struct with the parameters.'' @ nl);
          f = f_write f (tab3 @ ''%'' @ nl);
          f = f_write f (tab3 @ ''% Return:'' @ nl);
          f = f_write f (tab3 @ ''%'' @ tab @ '' dx Array with the ODE.'' @ nl);
          f = f_write f nl
      in then_run (write_local_states self f) (\<lambda>f.
           case write_ode_loop self (get_states_dae (dae self)) 1 f of
             Inl ef \<Rightarrow> Some (Inl ef)
           | Inr f \<Rightarrow> Some (Inr (f_write f (tab2 @ ''end'' @ nl)))))"

fun write_simout_states :: "state list \<Rightarrow> file_obj \<Rightarrow> file_obj" where
  "write_simout_states [] f = f"
| "write_simout_states (item # rest) f =
     write_simout_states rest
       (f_write f (tab3 @ ''out.'' @ id_s item @ '' = ('' @ id_s item @ ''.*ones_t)'' @ sq
                    @ '';'' @ nl))"

fun write_simout_parameters :: "parameter list \<Rightarrow> file_obj \<Rightarrow> file_obj" where
  "write_simout_parameters [] f = f"
| "write_simout_parameters (item # rest) f =
     write_simout_parameters rest
       (f_write f (tab3 @ ''out.'' @ id_p item @ '' = (p.'' @ id_p item @ ''.*ones_t)'' @ sq
                    @ '';'' @ nl))"

definition write_simout_2_struct :: "Matlab \<Rightarrow> file_obj \<Rightarrow> file_obj run" where
  "write_simout_2_struct self f =
     (let f = f_write f (tab2 @ ''function out = simout2struct(~,t,x,p)'' @ nl);
          f = f_write f (tab3 @ ''%% Convert the simulation output into'');
          f = f_write f ('' an easy-to-use struct.'' @ nl);
          f = f_write f nl;
          f = f_write f (tab3 @ ''% We need to transpose state matrix.'' @ nl);
          f = f_write f (tab3 @ ''x = x'' @ sq @ '';'');
          f = f_write f nl
      in then_run (write_local_states self f) (\<lambda>f.
           let f = f_write f (tab3 @ ''% Save simulation time.'' @ nl);
               f = f_write f (tab3 @ ''out.t = t;'');
               f = f_write f nl;
               f = f_write f nl;
               f = f_write f (tab3 @ ''% Vector for extending single-value states'');
               f = f_write f ('' and parameters.'' @ nl);
               f = f_write f (tab3 @ ''ones_t = ones(size(t'' @ sq @ ''));'' @ nl);
               f = f_write f nl;
               f = f_write f (nl @ tab3 @ ''% Save states.'' @ nl);
               f = write_simout_states (get_states_dae (dae self)) f;
               f = f_write f nl;
               f = f_write f (tab3 @ ''% Save parameters.'' @ nl);
               f = write_simout_parameters (get_parameters (dae self)) f;
               f = f_write f nl;
               f = f_write f (tab2 @ ''end'' @ nl)
           in Some (Inr f)))"

text \<open>
  \<open>write_plot\<close> groups the states by context in a dictionary, which keeps the order in
  which the contexts were first seen.
\<close>

fun plot_contexts ::
  "state list \<Rightarrow> (string \<times> state list) list \<Rightarrow> (string \<times> state list) list" where
  "plot_contexts [] contexts = contexts"
| "plot_contexts (state # rest) contexts =
     (let c = context_s state in
      if map_of contexts c = None then plot_contexts rest (contexts @ [(c, [state])])
      else plot_contexts rest
             (map (\<lambda>(k, v). if k = c then (k, v @ [state]) else (k, v)) contexts))"

text \<open>
  \<open>math.ceil(math.sqrt(n))\<close> for the length \<open>n\<close> of a list: the least \<open>x\<close> with
  \<open>n \<le> x * x\<close> (the floating-point square root is exact enough for this below
  \<open>2^52\<close>).
\<close>

function ceil_sqrt_from :: "nat \<Rightarrow> nat \<Rightarrow> nat" where
  "ceil_sqrt_from x n = (if n \<le> x * x then x else ceil_sqrt_from (x + 1) n)"
  by pat_completeness auto
termination
proof (relation "measure (\<lambda>(x, n). n - x)")
  show "wf (measure (\<lambda>(x, n). n - x))" by simp
next
  fix x n :: nat
  assume "\<not> n \<le> x * x"
  then have "x < n"
    by (metis le_square le_trans not_le_imp_less)
  then show "((x + 1, n), (x, n)) \<in> measure (\<lambda>(x, n). n - x)" by simp
qed

declare ceil_sqrt_from.simps [simp del]

text \<open>The loop \<^verbatim>\<open>while x * (y - 1) >= len(states): y -= 1\<close> on Python's integers.\<close>

partial_function (option) subplot_rows :: "int \<Rightarrow> int \<Rightarrow> int \<Rightarrow> int option" where
  "subplot_rows x y n = (if x * (y - 1) \<ge> n then subplot_rows x (y - 1) n else Some y)"

declare subplot_rows.simps [code]

fun write_plot_subplots :: "state list \<Rightarrow> int \<Rightarrow> int \<Rightarrow> nat \<Rightarrow> file_obj \<Rightarrow> file_obj" where
  "write_plot_subplots [] x y i f = f"
| "write_plot_subplots (state # rest) x y i f =
     (let f = f_write f (tab3 @ ''subplot('' @ str_int x @ '','' @ str_int y @ '',''
                          @ str_nat (i + 1) @ '');'' @ nl);
          f = f_write f (tab3 @ ''plot(out.t, out.'' @ id_s state @ '');'' @ nl);
          f = f_write f (tab3 @ ''title('' @ dq @ id_s state @ dq @ '');'' @ nl);
          f = f_write f (tab3 @ ''ylim([0, +inf]);'' @ nl);
          f = f_write f (tab3 @ ''grid on;'' @ nl);
          f = f_write f nl
      in write_plot_subplots rest x y (i + 1) f)"

fun write_plot_contexts :: "(string \<times> state list) list \<Rightarrow> file_obj \<Rightarrow> file_obj option" where
  "write_plot_contexts [] f = Some f"
| "write_plot_contexts ((context', states) # rest) f =
     (let x = int (ceil_sqrt_from 0 (length states)) in
      case subplot_rows x x (int (length states)) of
        None \<Rightarrow> None
      | Some y \<Rightarrow>
          (let f = f_write f (tab3 @ ''figure('' @ sq @ ''Name'' @ sq @ '','' @ sq @ context'
                               @ sq @ '');'' @ nl);
               f = write_plot_subplots states x y 0 f
           in write_plot_contexts rest f))"

definition write_plot :: "Matlab \<Rightarrow> file_obj \<Rightarrow> file_obj run" where
  "write_plot self f =
     (let f = f_write f (tab2 @ ''function plot(~,out)'' @ nl);
          f = f_write f (tab3 @ ''%% Plot simulation result.'' @ nl);
          states = get_states_dae (dae self);
          contexts = plot_contexts states []
      in case write_plot_contexts contexts f of
           None \<Rightarrow> None
         | Some f \<Rightarrow> Some (Inr (f_write f (tab2 @ ''end'' @ nl))))"

section \<open>Exports\<close>

text \<open>
  \<open>export_example\<close> and \<open>export_class\<close> open the output file, write it and close it.
  The result is the path returned, or the error raised, each with the file object as the
  call leaves it.
\<close>

definition export_example :: "Matlab \<Rightarrow> (string \<times> file_obj) run" where
  "export_example self =
     (let filepath = output_path self;
          filepath = filepath @ ''/'';
          filepath = filepath @ get_model_name (dae self);
          filepath = filepath @ ''_example.m'';
          f = open_w filepath;
          name = get_model_name (dae self);
          f = f_write f (''%% Example driver script for simulating '' @ dq @ name @ dq
                          @ '' model.'' @ nl);
          f = write_warning f 0;
          f = f_write f (''clear all;'' @ nl);
          f = f_write f (''close all;'' @ nl);
          f = f_write f (nl @ ''% Init model.'' @ nl);
          f = f_write f (''m = '' @ name @ ''();'' @ nl);
          f = f_write f (nl @ ''% Solver options.'' @ nl);
          f = f_write f (''opt = odeset('' @ sq @ ''AbsTol'' @ sq @ '',1e-8,'' @ sq @ ''RelTol''
                          @ sq @ '',1e-8);'' @ nl);
          f = f_write f (''opt = odeset(opt,'' @ sq @ ''Mass'' @ sq @ '',m.M);'' @ nl);
          f = f_write f (nl @ ''% Simulation time span.'' @ nl);
          f = f_write f (''tspan = [m.opts.t_init m.opts.t_end];'' @ nl);
          f = f_write f (nl @ ''[t,x] = ode15s(@(t,x) m.ode(t,x,m.p),tspan,m.x0,opt);'' @ nl);
          f = f_write f (''out = m.simout2struct(t,x,m.p);'' @ nl);
          f = f_write f (nl @ ''% Plot result.'' @ nl);
          f = f_write f (''m.plot(out);'' @ nl);
          f = f_close f
      in Some (Inr (filepath, f)))"

definition export_class :: "Matlab \<Rightarrow> (string \<times> file_obj) run" where
  "export_class self =
     (let filepath = output_path self;
          filepath = filepath @ ''/'';
          filepath = filepath @ get_model_name (dae self);
          filepath = filepath @ ''.m'';
          f = open_w filepath;
          f = write_class_header self f;
          f = write_constructor self f;
          f = write_default_parameters self f;
          f = write_initial_conditions self f;
          f = write_mass_matrix self f;
          f = write_simulation_options self f
      in then_run (write_ode self f) (\<lambda>f.
         then_run (write_simout_2_struct self f) (\<lambda>f.
         then_run (write_plot self f) (\<lambda>f.
           let f = f_write f (tab @ ''end'' @ nl);
               f = f_write f (''end'' @ nl);
               f = f_close f
           in Some (Inr (filepath, f))))))"

section \<open>The specification's vocabulary\<close>

text \<open>
  The rewrite rules of section 4.3, one token at a time, in the specification's words:
  a name in the parameter ids gets the namespace prefix, the operators \<open>* / ^\<close> get the
  elementwise marker, \<open>+\<close> and \<open>-\<close> get a blank on each side, anything else is copied.
\<close>

definition translate_token :: "string set \<Rightarrow> token \<Rightarrow> string" where
  "translate_token parameter_ids tok =
     (if fst tok = NAME \<and> snd tok \<in> parameter_ids then ''p.'' @ snd tok
      else if fst tok = OP \<and> snd tok \<in> {''*'', ''/'', ''^''} then ''.'' @ snd tok
      else if fst tok = OP \<and> snd tok \<in> {''+'', ''-''} then '' '' @ snd tok @ '' ''
      else snd tok)"

text \<open>
  The tokens of the formula itself: the stream without the encoding token, which tells
  how the bytes were decoded and stands for no text of the formula.
\<close>

definition formula_tokens :: "token list \<Rightarrow> token list" where
  "formula_tokens g = filter (\<lambda>tok. fst tok \<noteq> ENCODING) g"

text \<open>The name tokens of a stream whose text is one of the given ids, in order.\<close>

definition name_tokens_in :: "string set \<Rightarrow> token list \<Rightarrow> string list" where
  "name_tokens_in ids g = map snd (filter (\<lambda>tok. fst tok = NAME \<and> snd tok \<in> ids) g)"

text \<open>The ids of the parameters and of the states of the model an exporter holds.\<close>

definition parameter_ids :: "Matlab \<Rightarrow> string list" where
  "parameter_ids self = map id_p (get_parameters (dae self))"

definition state_ids :: "Matlab \<Rightarrow> string list" where
  "state_ids self = map id_s (get_states_dae (dae self))"

text \<open>The characters of the lexical grammar of section 4.1.\<close>

definition in_grammar :: "char \<Rightarrow> bool" where
  "in_grammar c \<longleftrightarrow>
     is_space c \<or> is_name_start c \<or> is_digit c \<or> c = CHR ''.'' \<or> is_op_char c"

text \<open>A formula tokenizes when the tokenizer accepts it.\<close>

definition tokenizes :: "string \<Rightarrow> bool" where
  "tokenizes math_expr = (case tokenize math_expr of Inl e \<Rightarrow> False | Inr g \<Rightarrow> True)"

section \<open>The reference graph\<close>

text \<open>
  The dependencies of a state are the ids that \<open>get_states\<close> finds in its equation.
  The reference graph has an edge from \<open>d\<close> to the id of every assignment state whose
  equation names \<open>d\<close>.
\<close>

definition dependencies_of :: "Matlab \<Rightarrow> state \<Rightarrow> string set" where
  "dependencies_of self s =
     (case get_states self (equation s) of Inl e \<Rightarrow> {} | Inr deps \<Rightarrow> set deps)"

definition dep_rel :: "Matlab \<Rightarrow> (string \<times> string) set" where
  "dep_rel self =
     {(d, id_s s) | d s. s \<in> set (get_states_dae (dae self)) \<and> type_s s = ASSIGMENT
        \<and> d \<in> dependencies_of self s}"

text \<open>
  The ids of the ODE and algebraic states, and of the assignment states, in declaration
  order.
\<close>

definition ode_algebraic_ids :: "Matlab \<Rightarrow> string list" where
  "ode_algebraic_ids self =
     map id_s (filter (\<lambda>s. type_s s = ODE \<or> type_s s = ALGEBRAIC) (get_states_dae (dae self)))"

definition assignment_ids :: "Matlab \<Rightarrow> string list" where
  "assignment_ids self =
     map id_s (filter (\<lambda>s. type_s s = ASSIGMENT) (get_states_dae (dae self)))"



text \<open>
  A set of ids is stuck when it holds the id of some state and every state with an id
  in it is an assignment state that a scan cannot append while the set is unresolved:
  its equation does not tokenize, or it depends on an id of the set.
\<close>

definition stuck_ids :: "Matlab \<Rightarrow> string set \<Rightarrow> bool" where
  "stuck_ids self S \<longleftrightarrow>
     (\<exists>s \<in> set (get_states_dae (dae self)). id_s s \<in> S)
     \<and> (\<forall>s \<in> set (get_states_dae (dae self)). id_s s \<in> S \<longrightarrow>
           type_s s = ASSIGMENT
           \<and> (\<not> tokenizes (equation s) \<or> (\<exists>d \<in> dependencies_of self s. d \<in> S)))"

text \<open>
  While some ids are stuck, \<open>known_states\<close> is the ODE and algebraic ids followed by
  distinct assignment ids that are not stuck, and so is shorter than the list of states.
\<close>

definition known_while_stuck :: "Matlab \<Rightarrow> string set \<Rightarrow> string list \<Rightarrow> bool" where
  "known_while_stuck self S known \<longleftrightarrow>
     (\<exists>added. known = ode_algebraic_ids self @ added \<and> distinct added
        \<and> set added \<subseteq> set (assignment_ids self) - S
        \<and> set (ode_algebraic_ids self) \<inter> S = {})"

text \<open>Some assignment equation of the model does not tokenize.\<close>

definition some_assignment_malformed :: "Matlab \<Rightarrow> bool" where
  "some_assignment_malformed self \<longleftrightarrow>
     (\<exists>s \<in> set (get_states_dae (dae self)). type_s s = ASSIGMENT \<and> \<not> tokenizes (equation s))"

text \<open>
  What a run of the resolver shows of itself apart from the file: the error, or the
  order of the states.
\<close>

definition order_of ::
  "((error \<times> file_obj) + (string list \<times> file_obj)) option \<Rightarrow> (error + string list) option" where
  "order_of r = map_option (map_sum fst fst) r"

text \<open>The file object a run ends with.\<close>

definition file_of :: "(error \<times> file_obj) + file_obj \<Rightarrow> file_obj" where
  "file_of r = (case r of Inl ef \<Rightarrow> snd ef | Inr f \<Rightarrow> f)"



section \<open>Example models\<close>

definition mk_state :: "string \<Rightarrow> StateType \<Rightarrow> string \<Rightarrow> state" where
  "mk_state i t e =
     \<lparr>id_s = i, type_s = t, equation = e, initialCondition = ''0'', context_s = ''main''\<rparr>"

definition mk_parameter :: "string \<Rightarrow> parameter" where
  "mk_parameter i = \<lparr>id_p = i, value_p = ''1''\<rparr>"

definition mk_model :: "string list \<Rightarrow> state list \<Rightarrow> Matlab" where
  "mk_model ps ss =
     \<lparr>dae = \<lparr>get_model_name = ''m'', get_parameters = map mk_parameter ps,
              get_states_dae = ss, get_options = []\<rparr>,
      output_path = ''out''\<rparr>"

text \<open>The translator example of section 8: the one parameter \<open>a\<close>.\<close>

definition model_a :: Matlab where
  "model_a = mk_model [''a''] []"

text \<open>The extractor example of section 8: the states \<open>x\<close>, \<open>y\<close>, \<open>z\<close> and \<open>w\<close>.\<close>

definition model_xyzw :: Matlab where
  "model_xyzw =
     mk_model [] [mk_state ''x'' ODE ''0'', mk_state ''y'' ODE ''0'',
                  mk_state ''z'' ODE ''0'', mk_state ''w'' ODE ''0'']"

text \<open>A model whose one parameter is called \<open>f\<close>.\<close>

definition model_f :: Matlab where
  "model_f = mk_model [''f''] []"

text \<open>The end-to-end scenario of section 8.\<close>

definition model_v1_a1_a2 :: Matlab where
  "model_v1_a1_a2 =
     mk_model [] [mk_state ''v1'' ODE ''-v1'', mk_state ''a1'' ASSIGMENT ''v1*2'',
                  mk_state ''a2'' ASSIGMENT ''a1+1'']"

text \<open>The cycle of section 8: \<open>A\<close> is \<open>B\<close> and \<open>B\<close> is \<open>A\<close>.\<close>

definition model_cycle_AB :: Matlab where
  "model_cycle_AB = mk_model [] [mk_state ''A'' ASSIGMENT ''B'', mk_state ''B'' ASSIGMENT ''A'']"

text \<open>
  ODE, algebraic and assignment states, declared out of order: \<open>a2\<close> needs \<open>a1\<close>, which is
  declared after it.
\<close>

definition model_mixed :: Matlab where
  "model_mixed =
     mk_model [] [mk_state ''a2'' ASSIGMENT ''a1+w'', mk_state ''v1'' ODE ''-v1'',
                  mk_state ''a1'' ASSIGMENT ''v1*2'', mk_state ''w'' ALGEBRAIC ''w-v1'']"

text \<open>
  An unterminated string, opened with three double quotes: characters outside the
  grammar.
\<close>

definition unterminated_string :: string where
  "unterminated_string = CHR 0x22 # CHR 0x22 # CHR 0x22 # ''abc''"

text \<open>A model whose ODE state has that string for its equation.\<close>

definition model_malformed :: Matlab where
  "model_malformed = mk_model [] [mk_state ''x'' ODE unterminated_string]"



section \<open>Translator and extractor: proofs\<close>

lemmas lex_char_defs =
  is_space_def is_name_start_def is_digit_def is_name_char_def is_op_char_def

lemma string2matlab_loop_concat:
  "string2matlab_loop params g result =
     result @ concat (map (translate_token (set params)) (formula_tokens g))"
  by (induction params g result rule: string2matlab_loop.induct)
     (auto simp: translate_token_def formula_tokens_def)

lemma string2matlab_tokens:
  assumes "tokenize math_expr = Inr g"
  shows "string2matlab self math_expr =
           Inr (concat (map (translate_token (set (parameter_ids self))) (formula_tokens g)))"
  using assms by (simp add: string2matlab_def parameter_ids_def string2matlab_loop_concat)

lemma string2matlab_loop_cong:
  "set params = set params' \<Longrightarrow>
     string2matlab_loop params g result = string2matlab_loop params' g result"
  by (simp add: string2matlab_loop_concat)

lemma get_states_loop_filter:
  "get_states_loop states g result = result @ name_tokens_in (set states) g"
  by (induction states g result rule: get_states_loop.induct)
     (auto simp: name_tokens_in_def)

lemma get_states_tokens:
  assumes "tokenize math_expr = Inr g"
  shows "get_states self math_expr = Inr (name_tokens_in (set (state_ids self)) g)"
  using assms by (simp add: get_states_def state_ids_def get_states_loop_filter)

lemma tokenize_abc:
  "tokenize ''a*b+c'' =
     Inr [(ENCODING, ''utf-8''), (NAME, ''a''), (OP, ''*''), (NAME, ''b''), (OP, ''+''),
          (NAME, ''c''), (ENDMARKER, [])]"
  by (simp add: tokenize_def lex_char_defs)

lemma tokenize_xyz:
  "tokenize ''x + 2*y - z'' =
     Inr [(ENCODING, ''utf-8''), (NAME, ''x''), (OP, ''+''), (NUMBER, ''2''), (OP, ''*''),
          (NAME, ''y''), (OP, ''-''), (NAME, ''z''), (ENDMARKER, [])]"
  by (simp add: tokenize_def lex_char_defs)

lemma tokenize_fx:
  "tokenize ''f(x)'' =
     Inr [(ENCODING, ''utf-8''), (NAME, ''f''), (OP, ''(''), (NAME, ''x''), (OP, '')''),
          (ENDMARKER, [])]"
  by (simp add: tokenize_def lex_char_defs)

text \<open>
  C3.  Whenever the formula tokenizes, \<open>string2matlab\<close> is the concatenation, in order
  and with nothing in between, of the tokens of the formula rewritten one by one: a name
  among the parameter ids becomes \<open>p.<name>\<close>, an operator among \<open>* / ^\<close> gets the point
  in front, \<open>+\<close> and \<open>-\<close> get one blank on each side, every other token is copied.  In
  particular, with \<open>a\<close> the only parameter, \<open>a*b+c\<close> becomes \<open>p.a.*b + c\<close>.
\<close>

theorem string2matlab_rewrites_each_token:
  "(\<forall>g. tokenize math_expr = Inr g \<longrightarrow>
        string2matlab self math_expr =
          Inr (concat (map (translate_token (set (parameter_ids self))) (formula_tokens g))))
   \<and> (set (parameter_ids self) = {''a''} \<longrightarrow>
        string2matlab self ''a*b+c'' = Inr ''p.a.*b + c'')"
proof (intro conjI allI impI)
  fix g assume "tokenize math_expr = Inr g"
  then show "string2matlab self math_expr =
      Inr (concat (map (translate_token (set (parameter_ids self))) (formula_tokens g)))"
    by (rule string2matlab_tokens)
next
  assume "set (parameter_ids self) = {''a''}"
  then show "string2matlab self ''a*b+c'' = Inr ''p.a.*b + c''"
    by (simp add: string2matlab_tokens [OF tokenize_abc] translate_token_def
          formula_tokens_def)
qed

theorem string2matlab_rewrites_each_token_witness:
  "tokenize ''a*b+c'' =
     Inr [(ENCODING, ''utf-8''), (NAME, ''a''), (OP, ''*''), (NAME, ''b''), (OP, ''+''),
          (NAME, ''c''), (ENDMARKER, [])]
   \<and> set (parameter_ids model_a) = {''a''}
   \<and> string2matlab model_a ''a*b+c'' =
       Inr (concat [''p.a'', ''.*'', ''b'', '' + '', ''c'', []])
   \<and> string2matlab model_a ''a*b+c'' = Inr ''p.a.*b + c''"
  using string2matlab_rewrites_each_token [of "''a*b+c''" model_a] tokenize_abc
  by (simp add: model_a_def mk_model_def mk_parameter_def parameter_ids_def
        translate_token_def formula_tokens_def)

text \<open>
  C4.  Whenever the formula tokenizes, \<open>get_states\<close> returns exactly the name tokens
  whose text is a state id, in token order, repeats included.  With the state ids
  \<open>x\<close>, \<open>y\<close>, \<open>z\<close>, \<open>w\<close>, the formula \<open>x + 2*y - z\<close> gives \<open>[x, y, z]\<close>: no \<open>w\<close>.
\<close>

theorem get_states_name_tokens_in_order:
  "(\<forall>g. tokenize math_expr = Inr g \<longrightarrow>
        get_states self math_expr = Inr (name_tokens_in (set (state_ids self)) g))
   \<and> (set (state_ids self) = {''x'', ''y'', ''z'', ''w''} \<longrightarrow>
        get_states self ''x + 2*y - z'' = Inr [''x'', ''y'', ''z''])"
proof (intro conjI allI impI)
  fix g assume "tokenize math_expr = Inr g"
  then show "get_states self math_expr = Inr (name_tokens_in (set (state_ids self)) g)"
    by (rule get_states_tokens)
next
  assume "set (state_ids self) = {''x'', ''y'', ''z'', ''w''}"
  then show "get_states self ''x + 2*y - z'' = Inr [''x'', ''y'', ''z'']"
    by (simp add: get_states_tokens [OF tokenize_xyz] name_tokens_in_def)
qed

theorem get_states_name_tokens_in_order_witness:
  "tokenize ''x*x'' =
     Inr [(ENCODING, ''utf-8''), (NAME, ''x''), (OP, ''*''), (NAME, ''x''), (ENDMARKER, [])]
   \<and> get_states model_xyzw ''x*x'' = Inr [''x'', ''x'']
   \<and> set (state_ids model_xyzw) = {''x'', ''y'', ''z'', ''w''}
   \<and> get_states model_xyzw ''x + 2*y - z'' = Inr [''x'', ''y'', ''z'']"
proof -
  have tok: "tokenize ''x*x'' =
     Inr [(ENCODING, ''utf-8''), (NAME, ''x''), (OP, ''*''), (NAME, ''x''), (ENDMARKER, [])]"
    by (simp add: tokenize_def lex_char_defs)
  have ids: "set (state_ids model_xyzw) = {''x'', ''y'', ''z'', ''w''}"
    by (simp add: model_xyzw_def mk_model_def mk_state_def state_ids_def)
  show ?thesis
    using get_states_name_tokens_in_order [of "''x*x''" model_xyzw] tok ids
    by (simp add: name_tokens_in_def)
qed

text \<open>
  C10.  A name token whose text is a parameter id is written \<open>p.<name>\<close> whatever
  stands before and after it: the text between what the loop makes of the tokens before
  and what it makes of the tokens after.  So a parameter id used as the head of a call is
  namespaced too: with the parameter \<open>f\<close>, \<open>f(x)\<close> becomes \<open>p.f(x)\<close>.
\<close>

theorem string2matlab_namespaces_any_name_token:
  "(\<forall>before v after.
        tokenize math_expr = Inr (before @ (NAME, v) # after) \<and> v \<in> set (parameter_ids self)
        \<longrightarrow> string2matlab self math_expr =
              Inr (string2matlab_loop (parameter_ids self) before [] @ ''p.'' @ v
                   @ string2matlab_loop (parameter_ids self) after []))
   \<and> (set (parameter_ids self) = {''f''} \<longrightarrow>
        string2matlab self ''f(x)'' = Inr ''p.f(x)'')"
proof (intro conjI allI impI)
  fix before v after
  assume "tokenize math_expr = Inr (before @ (NAME, v) # after) \<and> v \<in> set (parameter_ids self)"
  then show "string2matlab self math_expr =
      Inr (string2matlab_loop (parameter_ids self) before [] @ ''p.'' @ v
           @ string2matlab_loop (parameter_ids self) after [])"
    by (simp add: string2matlab_def parameter_ids_def string2matlab_loop_concat
          formula_tokens_def translate_token_def)
next
  assume "set (parameter_ids self) = {''f''}"
  then show "string2matlab self ''f(x)'' = Inr ''p.f(x)''"
    by (simp add: string2matlab_tokens [OF tokenize_fx] translate_token_def
          formula_tokens_def)
qed

theorem string2matlab_namespaces_any_name_token_witness:
  "tokenize ''f(x)'' =
     Inr ([(ENCODING, ''utf-8'')] @ (NAME, ''f'') # [(OP, ''(''), (NAME, ''x''), (OP, '')''),
          (ENDMARKER, [])])
   \<and> ''f'' \<in> set (parameter_ids model_f)
   \<and> set (parameter_ids model_f) = {''f''}
   \<and> string2matlab model_f ''f(x)'' = Inr ''p.f(x)''"
proof -
  have ids: "parameter_ids model_f = [''f'']"
    by (simp add: model_f_def mk_model_def mk_parameter_def parameter_ids_def)
  show ?thesis
    using string2matlab_namespaces_any_name_token [of "''f(x)''" model_f] tokenize_fx ids
    by simp
qed

section \<open>Dependency resolver: proofs\<close>

subsection \<open>One scan\<close>

lemma tokenizes_iff: "tokenizes e \<longleftrightarrow> (\<exists>g. tokenize e = Inr g)"
  by (auto simp: tokenizes_def split: sum.splits)

lemma get_states_Inr_iff: "(\<exists>deps. get_states self e = Inr deps) \<longleftrightarrow> tokenizes e"
  by (auto simp: get_states_def tokenizes_def split: sum.splits)

lemma string2matlab_Inr_iff: "(\<exists>r. string2matlab self e = Inr r) \<longleftrightarrow> tokenizes e"
  by (auto simp: string2matlab_def tokenizes_def split: sum.splits)


lemma dependencies_of_Inr:
  "get_states self (equation s) = Inr deps \<Longrightarrow> dependencies_of self s = set deps"
  by (simp add: dependencies_of_def)

lemma scan_Inr_induct [consumes 1, case_names Nil Skip Append]:
  assumes run: "write_local_states_scan self ss known f = Inr (known', f')"
    and nil: "P [] known' f'"
    and skip: "\<And>state rest known f.
        write_local_states_scan self rest known f = Inr (known', f') \<Longrightarrow>
        P rest known f \<Longrightarrow>
        type_s state \<noteq> ASSIGMENT \<or> id_s state \<in> set known
          \<or> (\<exists>deps. get_states self (equation state) = Inr deps \<and> \<not> set deps \<subseteq> set known) \<Longrightarrow>
        P (state # rest) known f"
    and append: "\<And>state rest known f deps eq.
        type_s state = ASSIGMENT \<Longrightarrow> id_s state \<notin> set known \<Longrightarrow>
        get_states self (equation state) = Inr deps \<Longrightarrow> set deps \<subseteq> set known \<Longrightarrow>
        string2matlab self (equation state) = Inr eq \<Longrightarrow>
        write_local_states_scan self rest (known @ [id_s state])
          (f_write f (tab3 @ id_s state @ '' = '' @ eq @ '';'' @ nl)) = Inr (known', f') \<Longrightarrow>
        P rest (known @ [id_s state])
          (f_write f (tab3 @ id_s state @ '' = '' @ eq @ '';'' @ nl)) \<Longrightarrow>
        P (state # rest) known f"
  shows "P ss known f"
  using run
proof (induction ss arbitrary: known f)
  case Nil
  with nil show ?case by simp
next
  case (Cons state rest)
  show ?case
  proof (cases "type_s state = ASSIGMENT \<and> id_s state \<notin> set known")
    case False
    with Cons.prems have "write_local_states_scan self rest known f = Inr (known', f')"
      by (auto split: if_splits)
    with False Cons.IH show ?thesis
      by (intro skip) auto
  next
    case True
    with Cons.prems obtain deps where deps: "get_states self (equation state) = Inr deps"
      by (auto split: sum.splits)
    show ?thesis
    proof (cases "list_all (\<lambda>elem. elem \<in> set known) deps")
      case False
      with True deps Cons.prems
      have "write_local_states_scan self rest known f = Inr (known', f')"
        by simp
      with False deps Cons.IH show ?thesis
        by (intro skip) (auto simp: list_all_iff)
    next
      case all: True
      with True deps Cons.prems obtain eq
        where eq: "string2matlab self (equation state) = Inr eq"
        by (auto split: sum.splits)
      with True deps all Cons.prems
      have rest: "write_local_states_scan self rest (known @ [id_s state])
              (f_write f (tab3 @ id_s state @ '' = '' @ eq @ '';'' @ nl)) = Inr (known', f')"
        by simp
      from all have sub: "set deps \<subseteq> set known"
        by (auto simp: list_all_iff)
      from True deps sub eq rest Cons.IH [OF rest] show ?thesis
        by (intro append) auto
    qed
  qed
qed

lemma scan_appends:
  assumes "write_local_states_scan self ss known f = Inr (known', f')"
  shows "\<exists>new. known' = known @ new
        \<and> subseq new (map id_s (filter (\<lambda>s. type_s s = ASSIGMENT) ss))
        \<and> distinct new \<and> set new \<inter> set known = {}"
  using assms
proof (induction rule: scan_Inr_induct)
  case Nil
  then show ?case by simp
next
  case (Skip state rest known f)
  then show ?case by (auto intro: subseq_Cons')
next
  case (Append state rest known f deps eq)
  then obtain new where new: "known' = (known @ [id_s state]) @ new"
      "subseq new (map id_s (filter (\<lambda>s. type_s s = ASSIGMENT) rest))"
      "distinct new" "set new \<inter> set (known @ [id_s state]) = {}"
    by auto
  with Append(1,2) show ?case
    by (intro exI [of _ "id_s state # new"]) auto
qed




lemma scan_succeeds:
  assumes "\<forall>s \<in> set ss. type_s s = ASSIGMENT \<longrightarrow> tokenizes (equation s)"
  shows "\<exists>known' f'. write_local_states_scan self ss known f = Inr (known', f')"
  using assms
proof (induction self ss known f rule: write_local_states_scan.induct)
  case (1 self known f)
  then show ?case by simp
next
  case (2 self state rest known f)
  show ?case
  proof (cases "type_s state = ASSIGMENT")
    case False
    with 2 show ?thesis by simp
  next
    case True
    with "2.prems" have tok: "tokenizes (equation state)" by simp
    then obtain deps eq where de: "get_states self (equation state) = Inr deps"
        "string2matlab self (equation state) = Inr eq"
      using get_states_Inr_iff string2matlab_Inr_iff by blast
    with True "2.prems" "2.IH" show ?thesis
      by (cases "id_s state \<in> set known"; cases "list_all (\<lambda>elem. elem \<in> set known) deps") auto
  qed
qed


subsection \<open>The loop returns on acyclic graphs\<close>



lemma subseq_set: "subseq xs ys \<Longrightarrow> set xs \<subseteq> set ys"
  by (induction rule: list_emb.induct) auto




lemma write_local_states_ode_known:
  "fst (snd (write_local_states_ode ss i known f)) =
     known @ map id_s (filter (\<lambda>s. type_s s = ODE \<or> type_s s = ALGEBRAIC) ss)"
  by (induction ss i known f rule: write_local_states_ode.induct) auto

lemma length_filter_kinds:
  "length (filter (\<lambda>s. type_s s = ODE \<or> type_s s = ALGEBRAIC) ss)
     + length (filter (\<lambda>s. type_s s = ASSIGMENT) ss) \<le> length ss"
  by (induction ss) auto

lemma length_ids_split:
  "length (ode_algebraic_ids self) + length (assignment_ids self)
     \<le> length (get_states_dae (dae self))"
  using length_filter_kinds [of "get_states_dae (dae self)"]
  by (simp add: ode_algebraic_ids_def assignment_ids_def)


lemma write_local_states_known_unfold:
  "write_local_states_known self f =
     (case write_local_states_while self (length (get_states_dae (dae self)))
             (ode_algebraic_ids self)
             (f_write (f_write (snd (snd (write_local_states_ode (get_states_dae (dae self)) 1 []
                 (f_write f (tab3 @ ''% ODE and algebraic states:'' @ nl))))) nl)
               (tab3 @ ''% Assigment states:'' @ nl)) of
        None \<Rightarrow> None
      | Some (Inl ef) \<Rightarrow> Some (Inl ef)
      | Some (Inr (known_states, f)) \<Rightarrow> Some (Inr (known_states, f_write f nl)))"
proof -
  obtain i k f' where w: "write_local_states_ode (get_states_dae (dae self)) 1 []
      (f_write f (tab3 @ ''% ODE and algebraic states:'' @ nl)) = (i, k, f')"
    by (cases "write_local_states_ode (get_states_dae (dae self)) 1 []
      (f_write f (tab3 @ ''% ODE and algebraic states:'' @ nl))") auto
  have "k = ode_algebraic_ids self"
    using write_local_states_ode_known [of "get_states_dae (dae self)" 1 "[]"
        "f_write f (tab3 @ ''% ODE and algebraic states:'' @ nl)"] w
    by (simp add: ode_algebraic_ids_def)
  with w show ?thesis
    by (simp add: write_local_states_known_def Let_def)
qed





lemmas model_defs = mk_model_def mk_state_def mk_parameter_def

lemmas eval_defs = get_states_def string2matlab_def tokenize_def lex_char_defs




subsection \<open>The loop never returns on cyclic graphs\<close>

lemma scan_avoids_stuck:
  assumes "write_local_states_scan self ss known f = Inr (known', f')"
    and "set ss \<subseteq> set (get_states_dae (dae self))"
    and "stuck_ids self S"
    and "set known \<inter> S = {}"
  shows "set known' \<inter> S = {}"
  using assms
proof (induction rule: scan_Inr_induct)
  case Nil
  then show ?case by simp
next
  case (Skip state rest known f)
  then show ?case by simp
next
  case (Append state rest known f deps eq)
  have "id_s state \<notin> S"
  proof
    assume inS: "id_s state \<in> S"
    from Append.prems(1) have st: "state \<in> set (get_states_dae (dae self))" by simp
    from Append(3) have "tokenizes (equation state)"
      using get_states_Inr_iff by blast
    with inS st Append.prems(2) obtain d where "d \<in> dependencies_of self state" "d \<in> S"
      by (auto simp: stuck_ids_def)
    with Append(3,4) Append.prems(3) show False
      by (auto simp: dependencies_of_Inr)
  qed
  with Append show ?case by simp
qed

lemma scan_Inl_not_tokenizes:
  assumes "write_local_states_scan self ss known f = Inl ef"
  shows "\<exists>s \<in> set ss. type_s s = ASSIGMENT \<and> \<not> tokenizes (equation s)"
proof (rule ccontr)
  assume "\<not> ?thesis"
  then have "\<forall>s \<in> set ss. type_s s = ASSIGMENT \<longrightarrow> tokenizes (equation s)" by blast
  from scan_succeeds [OF this, of self known f] assms show False by auto
qed

lemma stuck_ids_not_ode:
  assumes "stuck_ids self S"
  shows "set (ode_algebraic_ids self) \<inter> S = {}"
  using assms by (auto simp: stuck_ids_def ode_algebraic_ids_def)

lemma known_while_stuck_short:
  assumes stuck: "stuck_ids self S" and inv: "known_while_stuck self S known"
  shows "length known < length (get_states_dae (dae self))"
proof -
  from inv obtain added where a: "known = ode_algebraic_ids self @ added" "distinct added"
      "set added \<subseteq> set (assignment_ids self) - S"
    by (auto simp: known_while_stuck_def)
  from stuck obtain s where "s \<in> set (get_states_dae (dae self))" "id_s s \<in> S"
      "type_s s = ASSIGMENT"
    by (auto simp: stuck_ids_def)
  then have "id_s s \<in> set (assignment_ids self)" "id_s s \<notin> set (assignment_ids self) - S"
    by (auto simp: assignment_ids_def)
  then have "set (assignment_ids self) - S \<subset> set (assignment_ids self)" by blast
  then have "card (set (assignment_ids self) - S) < card (set (assignment_ids self))"
    by (simp add: psubset_card_mono)
  moreover have "card (set added) \<le> card (set (assignment_ids self) - S)"
    using a(3) by (simp add: card_mono)
  moreover have "card (set added) = length added"
    using a(2) by (simp add: distinct_card)
  moreover have "card (set (assignment_ids self)) \<le> length (assignment_ids self)"
    by (rule card_length)
  ultimately have "length added < length (assignment_ids self)" by linarith
  with a(1) length_ids_split [of self] show ?thesis by simp
qed

lemma scan_keeps_known_while_stuck:
  assumes scan: "write_local_states_scan self (get_states_dae (dae self)) known f
                   = Inr (known', f')"
    and stuck: "stuck_ids self S" and inv: "known_while_stuck self S known"
  shows "known_while_stuck self S known'"
proof -
  from inv obtain added where a: "known = ode_algebraic_ids self @ added" "distinct added"
      "set added \<subseteq> set (assignment_ids self) - S" "set (ode_algebraic_ids self) \<inter> S = {}"
    by (auto simp: known_while_stuck_def)
  from scan_appends [OF scan] obtain new where n: "known' = known @ new"
      "subseq new (assignment_ids self)" "distinct new" "set new \<inter> set known = {}"
    by (auto simp: assignment_ids_def)
  from a have "set known \<inter> S = {}" by auto
  from scan_avoids_stuck [OF scan subset_refl stuck this] n(1)
  have "set new \<inter> S = {}" by auto
  moreover from n(2) have "set new \<subseteq> set (assignment_ids self)" by (rule subseq_set)
  ultimately have "set (added @ new) \<subseteq> set (assignment_ids self) - S"
    using a(3) by auto
  moreover have "distinct (added @ new)"
    using a(1,2) n(3,4) by auto
  moreover have "known' = ode_algebraic_ids self @ (added @ new)"
    using a(1) n(1) by simp
  ultimately show ?thesis
    using a(4) unfolding known_while_stuck_def by blast
qed

lemma while_stuck_aux:
  assumes run: "write_local_states_while self n known f = Some r"
  shows "n = length (get_states_dae (dae self)) \<longrightarrow> stuck_ids self S \<longrightarrow>
         known_while_stuck self S known \<longrightarrow>
           (\<exists>ef. r = Inl ef) \<and> some_assignment_malformed self"
proof (rule write_local_states_while.raw_induct
    [where P = "\<lambda>self n known f r.
       n = length (get_states_dae (dae self)) \<longrightarrow> stuck_ids self S \<longrightarrow>
       known_while_stuck self S known \<longrightarrow>
         (\<exists>ef. r = Inl ef) \<and> some_assignment_malformed self", OF _ run])
  fix while :: "Matlab \<Rightarrow> nat \<Rightarrow> string list \<Rightarrow> file_obj
      \<Rightarrow> ((error \<times> file_obj) + (string list \<times> file_obj)) option"
  fix self n known f r
  assume IH: "\<And>self n known f r. while self n known f = Some r \<Longrightarrow>
       n = length (get_states_dae (dae self)) \<longrightarrow> stuck_ids self S \<longrightarrow>
       known_while_stuck self S known \<longrightarrow>
         (\<exists>ef. r = Inl ef) \<and> some_assignment_malformed self"
  assume step: "(if length known \<noteq> n
      then case write_local_states_scan self (get_states_dae (dae self)) known f of
             Inl ef \<Rightarrow> Some (Inl ef)
           | Inr kf \<Rightarrow> while self n (fst kf) (snd kf)
      else Some (Inr (known, f))) = Some r"
  show "n = length (get_states_dae (dae self)) \<longrightarrow> stuck_ids self S \<longrightarrow>
       known_while_stuck self S known \<longrightarrow>
         (\<exists>ef. r = Inl ef) \<and> some_assignment_malformed self"
  proof (intro impI)
    assume n: "n = length (get_states_dae (dae self))" and stuck: "stuck_ids self S"
      and inv: "known_while_stuck self S known"
    from known_while_stuck_short [OF stuck inv] n have "length known \<noteq> n" by simp
    with step have body:
      "(case write_local_states_scan self (get_states_dae (dae self)) known f of
          Inl ef \<Rightarrow> Some (Inl ef)
        | Inr kf \<Rightarrow> while self n (fst kf) (snd kf)) = Some r"
      by simp
    show "(\<exists>ef. r = Inl ef) \<and> some_assignment_malformed self"
    proof (cases "write_local_states_scan self (get_states_dae (dae self)) known f")
      case (Inl ef)
      with body scan_Inl_not_tokenizes [OF Inl] show ?thesis
        by (auto simp: some_assignment_malformed_def)
    next
      case (Inr kf)
      obtain known' f' where kf: "kf = (known', f')" by (cases kf)
      with Inr body have rec: "while self n known' f' = Some r" by simp
      from Inr kf have "write_local_states_scan self (get_states_dae (dae self)) known f
          = Inr (known', f')" by simp
      then have "known_while_stuck self S known'"
        using stuck inv by (rule scan_keeps_known_while_stuck)
      with IH [OF rec] n stuck show ?thesis by blast
    qed
  qed
qed

lemma known_while_stuck_initial:
  "stuck_ids self S \<Longrightarrow> known_while_stuck self S (ode_algebraic_ids self)"
  using stuck_ids_not_ode by (simp add: known_while_stuck_def)

lemma write_local_states_known_stuck:
  assumes stuck: "stuck_ids self S"
    and run: "write_local_states_known self f = Some r"
  shows "(\<exists>ef. r = Inl ef) \<and> some_assignment_malformed self"
proof -
  let ?f0 = "f_write (f_write (snd (snd (write_local_states_ode (get_states_dae (dae self)) 1 []
                 (f_write f (tab3 @ ''% ODE and algebraic states:'' @ nl))))) nl)
               (tab3 @ ''% Assigment states:'' @ nl)"
  from run obtain r' where w: "write_local_states_while self (length (get_states_dae (dae self)))
       (ode_algebraic_ids self) ?f0 = Some r'"
    by (auto simp: write_local_states_known_unfold split: option.splits)
  from while_stuck_aux [OF w, of S] stuck known_while_stuck_initial [OF stuck]
  have r': "(\<exists>ef. r' = Inl ef) \<and> some_assignment_malformed self" by blast
  with run w show ?thesis
    by (auto simp: write_local_states_known_unfold)
qed

lemma dep_relD:
  assumes "(d, y) \<in> dep_rel self"
  obtains s where "s \<in> set (get_states_dae (dae self))" "id_s s = y"
    "type_s s = ASSIGMENT" "d \<in> dependencies_of self s"
  using assms unfolding dep_rel_def by blast

lemma cycle_gives_stuck:
  assumes ids: "distinct (state_ids self)" and cyc: "\<not> acyclic (dep_rel self)"
  shows "\<exists>S. stuck_ids self S"
proof -
  define r where "r = dep_rel self"
  define S where "S x = {y. (x, y) \<in> r\<^sup>* \<and> (y, x) \<in> r\<^sup>*}" for x
  from cyc obtain x where x: "(x, x) \<in> r\<^sup>+"
    unfolding acyclic_def r_def by blast
  have inj: "inj_on id_s (set (get_states_dae (dae self)))"
    using ids by (simp add: state_ids_def distinct_map)
  have xS: "x \<in> S x" by (simp add: S_def)
  have step: "\<exists>d. (d, y) \<in> r \<and> d \<in> S x" if y: "y \<in> S x" for y
  proof -
    from y have xy: "(x, y) \<in> r\<^sup>*" and yx: "(y, x) \<in> r\<^sup>*"
      by (simp_all add: S_def)
    have "(x, y) \<in> r\<^sup>+"
    proof (cases "y = x")
      case True
      with x show ?thesis by simp
    next
      case False
      with rtranclD [OF xy] show ?thesis by blast
    qed
    from tranclD2 [OF this] obtain d where d: "(x, d) \<in> r\<^sup>*" "(d, y) \<in> r"
      by blast
    from d(2) yx have "(d, x) \<in> r\<^sup>*"
      by (rule converse_rtrancl_into_rtrancl)
    with d have "d \<in> S x" by (simp add: S_def)
    with d(2) show ?thesis by blast
  qed
  have "stuck_ids self (S x)"
    unfolding stuck_ids_def
  proof (intro conjI ballI impI)
    from step [OF xS] obtain d where "(d, x) \<in> dep_rel self"
      unfolding r_def by blast
    then obtain s where "s \<in> set (get_states_dae (dae self))" "id_s s = x"
      by (rule dep_relD)
    with xS show "\<exists>s \<in> set (get_states_dae (dae self)). id_s s \<in> S x"
      by blast
  next
    fix s assume s: "s \<in> set (get_states_dae (dae self))" "id_s s \<in> S x"
    from step [OF s(2)] obtain d where d: "(d, id_s s) \<in> dep_rel self" "d \<in> S x"
      unfolding r_def by blast
    from d(1) obtain s' where s': "s' \<in> set (get_states_dae (dae self))" "id_s s' = id_s s"
        "type_s s' = ASSIGMENT" "d \<in> dependencies_of self s'"
      by (rule dep_relD)
    from inj s'(2) s'(1) s(1) have eq: "s' = s" by (rule inj_onD)
    with s'(3) show "type_s s = ASSIGMENT" by simp
    from eq s'(4) d(2)
    show "\<not> tokenizes (equation s) \<or> (\<exists>d \<in> dependencies_of self s. d \<in> S x)"
      by blast
  qed
  then show ?thesis ..
qed

lemma write_local_states_Some_iff:
  "write_local_states self f = Some (Inr f') \<longleftrightarrow>
     (\<exists>known. write_local_states_known self f = Some (Inr (known, f')))"
  by (auto simp: write_local_states_def split: option.splits sum.splits)

lemma write_local_states_None_iff:
  "write_local_states self f = None \<longleftrightarrow> write_local_states_known self f = None"
  by (auto simp: write_local_states_def split: option.splits sum.splits)

lemma not_malformed_iff:
  "\<not> some_assignment_malformed self \<longleftrightarrow>
     (\<forall>s \<in> set (get_states_dae (dae self)). type_s s = ASSIGMENT \<longrightarrow> tokenizes (equation s))"
  by (auto simp: some_assignment_malformed_def)

lemma stuck_never_returns:
  assumes "stuck_ids self S"
  shows "write_local_states_known self f \<noteq> Some (Inr r)"
    and "\<not> some_assignment_malformed self \<Longrightarrow> write_local_states_known self f = None"
proof -
  show "write_local_states_known self f \<noteq> Some (Inr r)"
    using write_local_states_known_stuck [OF assms, of f "Inr r"] by auto
  show "write_local_states_known self f = None" if "\<not> some_assignment_malformed self"
  proof (cases "write_local_states_known self f")
    case None
    then show ?thesis .
  next
    case (Some r)
    from write_local_states_known_stuck [OF assms Some] that show ?thesis by simp
  qed
qed

text \<open>
  C1, as the code has it.  For a model with distinct state ids whose reference graph has a
  cycle, \<open>write_local_states\<close> never returns normally and raises no error of its own:
  when every assignment equation tokenizes it does not return at all, since every scan
  leaves the states of the cycle out and nothing ends the \<^verbatim>\<open>while\<close> loop.
\<close>

theorem cyclic_model_never_resolved:
  assumes "distinct (state_ids self)" and "\<not> acyclic (dep_rel self)"
  shows "(\<forall>f'. write_local_states self f \<noteq> Some (Inr f'))
       \<and> ((\<forall>s \<in> set (get_states_dae (dae self)).
              type_s s = ASSIGMENT \<longrightarrow> tokenizes (equation s))
            \<longrightarrow> write_local_states self f = None)"
proof -
  from cycle_gives_stuck [OF assms] obtain S where S: "stuck_ids self S" ..
  from stuck_never_returns [OF S] show ?thesis
    by (simp add: write_local_states_Some_iff write_local_states_None_iff not_malformed_iff)
qed

lemma model_cycle_AB_ids: "distinct (state_ids model_cycle_AB)"
  by (simp add: state_ids_def model_cycle_AB_def model_defs)

lemma model_cycle_AB_deps:
  "dependencies_of model_cycle_AB (mk_state ''A'' ASSIGMENT ''B'') = {''B''}"
  "dependencies_of model_cycle_AB (mk_state ''B'' ASSIGMENT ''A'') = {''A''}"
  by (simp_all add: dependencies_of_def model_cycle_AB_def model_defs eval_defs)

lemma model_cycle_AB_tokenizes:
  "\<forall>s \<in> set (get_states_dae (dae model_cycle_AB)).
      type_s s = ASSIGMENT \<longrightarrow> tokenizes (equation s)"
  by (simp add: model_cycle_AB_def model_defs tokenizes_def tokenize_def lex_char_defs)

lemma dep_relI:
  "s \<in> set (get_states_dae (dae self)) \<Longrightarrow> type_s s = ASSIGMENT \<Longrightarrow>
     d \<in> dependencies_of self s \<Longrightarrow> (d, id_s s) \<in> dep_rel self"
  unfolding dep_rel_def by blast

lemma model_cycle_AB_states:
  "get_states_dae (dae model_cycle_AB) =
     [mk_state ''A'' ASSIGMENT ''B'', mk_state ''B'' ASSIGMENT ''A'']"
  by (simp add: model_cycle_AB_def mk_model_def)

lemma model_cycle_AB_edges:
  "(''B'', ''A'') \<in> dep_rel model_cycle_AB" "(''A'', ''B'') \<in> dep_rel model_cycle_AB"
proof -
  have "(''B'', id_s (mk_state ''A'' ASSIGMENT ''B'')) \<in> dep_rel model_cycle_AB"
    by (rule dep_relI) (simp_all add: model_cycle_AB_states model_cycle_AB_deps,
      simp add: mk_state_def)
  then show "(''B'', ''A'') \<in> dep_rel model_cycle_AB" by (simp add: mk_state_def)
  have "(''A'', id_s (mk_state ''B'' ASSIGMENT ''A'')) \<in> dep_rel model_cycle_AB"
    by (rule dep_relI) (simp_all add: model_cycle_AB_states model_cycle_AB_deps,
      simp add: mk_state_def)
  then show "(''A'', ''B'') \<in> dep_rel model_cycle_AB" by (simp add: mk_state_def)
qed

lemma model_cycle_AB_cyclic: "\<not> acyclic (dep_rel model_cycle_AB)"
proof -
  have "(''A'', ''B'') \<in> (dep_rel model_cycle_AB)\<^sup>+"
    using model_cycle_AB_edges(2) by (rule r_into_trancl)
  then have "(''A'', ''A'') \<in> (dep_rel model_cycle_AB)\<^sup>+"
    using model_cycle_AB_edges(1) by (rule trancl_into_trancl)
  then show ?thesis unfolding acyclic_def by blast
qed

lemma model_cycle_AB_stuck: "stuck_ids model_cycle_AB {''A'', ''B''}"
proof -
  have types: "type_s (mk_state ''A'' ASSIGMENT ''B'') = ASSIGMENT"
      "type_s (mk_state ''B'' ASSIGMENT ''A'') = ASSIGMENT"
    and ids: "id_s (mk_state ''A'' ASSIGMENT ''B'') = ''A''"
      "id_s (mk_state ''B'' ASSIGMENT ''A'') = ''B''"
    by (simp_all add: mk_state_def)
  show ?thesis
    unfolding stuck_ids_def model_cycle_AB_states
    by (simp add: types ids model_cycle_AB_deps)
qed

theorem cyclic_model_never_resolved_witness:
  "distinct (state_ids model_cycle_AB) \<and> \<not> acyclic (dep_rel model_cycle_AB)
   \<and> tokenizes ''A'' \<and> tokenizes ''B''
   \<and> write_local_states model_cycle_AB (open_w ''out/m.m'') = None"
proof -
  have "tokenizes ''A''" "tokenizes ''B''"
    by (simp_all add: tokenizes_def tokenize_def lex_char_defs)
  moreover from cyclic_model_never_resolved [OF model_cycle_AB_ids model_cycle_AB_cyclic,
      of "open_w ''out/m.m''"] model_cycle_AB_tokenizes
  have "write_local_states model_cycle_AB (open_w ''out/m.m'') = None"
    by (rule conjunct2 [THEN mp])
  ultimately show ?thesis
    using model_cycle_AB_ids model_cycle_AB_cyclic by simp
qed

text \<open>
  C1 as stated fails: on the two states \<open>A = B\<close> and \<open>B = A\<close> the resolver raises nothing
  and does not terminate.
\<close>

theorem cycle_AB_loops_forever:
  "write_local_states model_cycle_AB (open_w ''out/m.m'') = None"
proof -
  have "\<not> some_assignment_malformed model_cycle_AB"
    using model_cycle_AB_tokenizes by (simp add: not_malformed_iff)
  from stuck_never_returns(2) [OF model_cycle_AB_stuck this]
  show ?thesis by (simp add: write_local_states_None_iff)
qed

subsection \<open>Shape of the order\<close>

lemma while_appends_aux:
  assumes run: "write_local_states_while self n known f = Some r"
  shows "\<forall>known' f'. r = Inr (known', f') \<longrightarrow>
           (\<exists>new. known' = known @ new \<and> distinct new \<and> set new \<inter> set known = {}
              \<and> set new \<subseteq> set (assignment_ids self))"
proof (rule write_local_states_while.raw_induct
    [where P = "\<lambda>self n known f r. \<forall>known' f'. r = Inr (known', f') \<longrightarrow>
           (\<exists>new. known' = known @ new \<and> distinct new \<and> set new \<inter> set known = {}
              \<and> set new \<subseteq> set (assignment_ids self))", OF _ run])
  fix while :: "Matlab \<Rightarrow> nat \<Rightarrow> string list \<Rightarrow> file_obj
      \<Rightarrow> ((error \<times> file_obj) + (string list \<times> file_obj)) option"
  fix self n known f r
  assume IH: "\<And>self n known f r. while self n known f = Some r \<Longrightarrow>
       \<forall>known' f'. r = Inr (known', f') \<longrightarrow>
           (\<exists>new. known' = known @ new \<and> distinct new \<and> set new \<inter> set known = {}
              \<and> set new \<subseteq> set (assignment_ids self))"
  assume step: "(if length known \<noteq> n
      then case write_local_states_scan self (get_states_dae (dae self)) known f of
             Inl ef \<Rightarrow> Some (Inl ef)
           | Inr kf \<Rightarrow> while self n (fst kf) (snd kf)
      else Some (Inr (known, f))) = Some r"
  show "\<forall>known' f'. r = Inr (known', f') \<longrightarrow>
           (\<exists>new. known' = known @ new \<and> distinct new \<and> set new \<inter> set known = {}
              \<and> set new \<subseteq> set (assignment_ids self))"
  proof (intro allI impI)
    fix known' f' assume r: "r = Inr (known', f')"
    show "\<exists>new. known' = known @ new \<and> distinct new \<and> set new \<inter> set known = {}
              \<and> set new \<subseteq> set (assignment_ids self)"
    proof (cases "length known \<noteq> n")
      case False
      with step r have "known' = known" by simp
      then show ?thesis by simp
    next
      case True
      with step have body:
        "(case write_local_states_scan self (get_states_dae (dae self)) known f of
            Inl ef \<Rightarrow> Some (Inl ef)
          | Inr kf \<Rightarrow> while self n (fst kf) (snd kf)) = Some r"
        by simp
      show ?thesis
      proof (cases "write_local_states_scan self (get_states_dae (dae self)) known f")
        case (Inl ef)
        with body r show ?thesis by simp
      next
        case (Inr kf)
        obtain known1 f1 where kf: "kf = (known1, f1)" by (cases kf)
        with Inr body have rec: "while self n known1 f1 = Some r" by simp
        from Inr kf have scan: "write_local_states_scan self (get_states_dae (dae self)) known f
            = Inr (known1, f1)" by simp
        from scan_appends [OF scan] obtain new1 where n1: "known1 = known @ new1"
            "subseq new1 (assignment_ids self)" "distinct new1" "set new1 \<inter> set known = {}"
          by (auto simp: assignment_ids_def)
        from IH [OF rec] r obtain new2 where n2: "known' = known1 @ new2" "distinct new2"
            "set new2 \<inter> set known1 = {}" "set new2 \<subseteq> set (assignment_ids self)"
          by blast
        from n1(2) have sub1: "set new1 \<subseteq> set (assignment_ids self)" by (rule subseq_set)
        have "known' = known @ (new1 @ new2)" using n1(1) n2(1) by simp
        moreover have "distinct (new1 @ new2)" using n1(1,3) n2(2,3) by auto
        moreover have "set (new1 @ new2) \<inter> set known = {}" using n1(1,4) n2(3) by auto
        moreover have "set (new1 @ new2) \<subseteq> set (assignment_ids self)" using sub1 n2(4) by simp
        ultimately show ?thesis by blast
      qed
    qed
  qed
qed

lemma write_local_states_known_prefix:
  assumes "write_local_states_known self f = Some (Inr (known, f'))"
  shows "\<exists>added. known = ode_algebraic_ids self @ added \<and> distinct added
           \<and> set added \<subseteq> set (assignment_ids self)"
proof -
  let ?f0 = "f_write (f_write (snd (snd (write_local_states_ode (get_states_dae (dae self)) 1 []
                 (f_write f (tab3 @ ''% ODE and algebraic states:'' @ nl))))) nl)
               (tab3 @ ''% Assigment states:'' @ nl)"
  from assms obtain f1 where w: "write_local_states_while self (length (get_states_dae (dae self)))
       (ode_algebraic_ids self) ?f0 = Some (Inr (known, f1))"
    by (auto simp: write_local_states_known_unfold split: option.splits sum.splits)
  from while_appends_aux [OF w] show ?thesis by blast
qed

text \<open>
  C9.  Whenever \<open>write_local_states\<close> returns, the order it has written begins with the
  ids of the ODE and algebraic states, in declaration order, and everything after them
  is the id of an assignment state.
\<close>

theorem ode_and_algebraic_states_come_first:
  assumes "write_local_states_known self f = Some (Inr (known, f'))"
  shows "\<exists>added. known =
            map id_s (filter (\<lambda>s. type_s s = ODE \<or> type_s s = ALGEBRAIC)
                       (get_states_dae (dae self))) @ added
          \<and> set added \<subseteq> set (map id_s (filter (\<lambda>s. type_s s = ASSIGMENT)
                                         (get_states_dae (dae self))))"
  using write_local_states_known_prefix [OF assms]
  unfolding ode_algebraic_ids_def assignment_ids_def by blast

lemma model_mixed_run:
  "\<exists>f'. write_local_states_known model_mixed (open_w ''out/m.m'')
          = Some (Inr ([''v1'', ''w'', ''a1'', ''a2''], f'))"
  by (simp add: write_local_states_known_def model_mixed_def model_defs eval_defs
      write_local_states_while.simps open_w_def f_write_def)

theorem ode_and_algebraic_states_come_first_witness:
  "order_of (write_local_states_known model_mixed (open_w ''out/m.m''))
     = Some (Inr ([''v1'', ''w''] @ [''a1'', ''a2'']))
   \<and> map id_s (filter (\<lambda>s. type_s s = ODE \<or> type_s s = ALGEBRAIC)
                  (get_states_dae (dae model_mixed))) = [''v1'', ''w'']
   \<and> map id_s (filter (\<lambda>s. type_s s = ASSIGMENT) (get_states_dae (dae model_mixed)))
       = [''a2'', ''a1'']"
proof -
  from model_mixed_run obtain f' where run:
    "write_local_states_known model_mixed (open_w ''out/m.m'')
       = Some (Inr ([''v1'', ''w'', ''a1'', ''a2''], f'))" ..
  have ode: "map id_s (filter (\<lambda>s. type_s s = ODE \<or> type_s s = ALGEBRAIC)
                  (get_states_dae (dae model_mixed))) = [''v1'', ''w'']"
    by (simp add: model_mixed_def model_defs)
  have asg: "map id_s (filter (\<lambda>s. type_s s = ASSIGMENT) (get_states_dae (dae model_mixed)))
       = [''a2'', ''a1'']"
    by (simp add: model_mixed_def model_defs)
  from ode_and_algebraic_states_come_first [OF run] ode asg
  have "\<exists>added. [''v1'', ''w'', ''a1'', ''a2''] = [''v1'', ''w''] @ added
          \<and> set added \<subseteq> set [''a2'', ''a1'']"
    by simp
  with run ode asg show ?thesis by (simp add: order_of_def)
qed

subsection \<open>The loop never returns on a state of another kind\<close>

text \<open>
  \<open>states_num\<close> counts every state (line 196), while the first loop appends only ODE and
  algebraic states (line 203) and the scans only assignment states (line 216).  A state
  of any other kind is counted and never appended, so \<open>known_states\<close> never reaches
  \<open>states_num\<close>.
\<close>

lemma while_Inr_length:
  assumes run: "write_local_states_while self n known f = Some r"
  shows "\<forall>known' f'. r = Inr (known', f') \<longrightarrow> length known' = n"
proof (rule write_local_states_while.raw_induct
    [where P = "\<lambda>self n known f r. \<forall>known' f'. r = Inr (known', f') \<longrightarrow> length known' = n",
     OF _ run])
  fix while :: "Matlab \<Rightarrow> nat \<Rightarrow> string list \<Rightarrow> file_obj
      \<Rightarrow> ((error \<times> file_obj) + (string list \<times> file_obj)) option"
  fix self n known f r
  assume IH: "\<And>self n known f r. while self n known f = Some r \<Longrightarrow>
       \<forall>known' f'. r = Inr (known', f') \<longrightarrow> length known' = n"
  assume step: "(if length known \<noteq> n
      then case write_local_states_scan self (get_states_dae (dae self)) known f of
             Inl ef \<Rightarrow> Some (Inl ef)
           | Inr kf \<Rightarrow> while self n (fst kf) (snd kf)
      else Some (Inr (known, f))) = Some r"
  show "\<forall>known' f'. r = Inr (known', f') \<longrightarrow> length known' = n"
  proof (intro allI impI)
    fix known' f' assume r: "r = Inr (known', f')"
    show "length known' = n"
    proof (cases "length known \<noteq> n")
      case False
      with step r show ?thesis by simp
    next
      case True
      with step have body:
        "(case write_local_states_scan self (get_states_dae (dae self)) known f of
            Inl ef \<Rightarrow> Some (Inl ef)
          | Inr kf \<Rightarrow> while self n (fst kf) (snd kf)) = Some r"
        by simp
      show ?thesis
      proof (cases "write_local_states_scan self (get_states_dae (dae self)) known f")
        case (Inl ef)
        with body r show ?thesis by simp
      next
        case (Inr kf)
        with body have "while self n (fst kf) (snd kf) = Some r" by simp
        from IH [OF this] r show ?thesis by blast
      qed
    qed
  qed
qed

lemma while_Inl_malformed:
  assumes run: "write_local_states_while self n known f = Some r"
  shows "(\<exists>ef. r = Inl ef) \<longrightarrow> some_assignment_malformed self"
proof (rule write_local_states_while.raw_induct
    [where P = "\<lambda>self n known f r. (\<exists>ef. r = Inl ef) \<longrightarrow> some_assignment_malformed self",
     OF _ run])
  fix while :: "Matlab \<Rightarrow> nat \<Rightarrow> string list \<Rightarrow> file_obj
      \<Rightarrow> ((error \<times> file_obj) + (string list \<times> file_obj)) option"
  fix self n known f r
  assume IH: "\<And>self n known f r. while self n known f = Some r \<Longrightarrow>
       (\<exists>ef. r = Inl ef) \<longrightarrow> some_assignment_malformed self"
  assume step: "(if length known \<noteq> n
      then case write_local_states_scan self (get_states_dae (dae self)) known f of
             Inl ef \<Rightarrow> Some (Inl ef)
           | Inr kf \<Rightarrow> while self n (fst kf) (snd kf)
      else Some (Inr (known, f))) = Some r"
  show "(\<exists>ef. r = Inl ef) \<longrightarrow> some_assignment_malformed self"
  proof
    assume r: "\<exists>ef. r = Inl ef"
    show "some_assignment_malformed self"
    proof (cases "length known \<noteq> n")
      case False
      with step r show ?thesis by auto
    next
      case True
      with step have body:
        "(case write_local_states_scan self (get_states_dae (dae self)) known f of
            Inl ef \<Rightarrow> Some (Inl ef)
          | Inr kf \<Rightarrow> while self n (fst kf) (snd kf)) = Some r"
        by simp
      show ?thesis
      proof (cases "write_local_states_scan self (get_states_dae (dae self)) known f")
        case (Inl ef)
        from scan_Inl_not_tokenizes [OF Inl] show ?thesis
          by (simp add: some_assignment_malformed_def)
      next
        case (Inr kf)
        with body have "while self n (fst kf) (snd kf) = Some r" by simp
        from IH [OF this] r show ?thesis by blast
      qed
    qed
  qed
qed

lemma length_filter_kinds_less:
  "s \<in> set ss \<Longrightarrow> type_s s = UNKOWN \<Longrightarrow>
     length (filter (\<lambda>s. type_s s = ODE \<or> type_s s = ALGEBRAIC) ss)
       + length (filter (\<lambda>s. type_s s = ASSIGMENT) ss) < length ss"
proof (induction ss)
  case Nil
  then show ?case by simp
next
  case (Cons a ss)
  show ?case
  proof (cases "s = a")
    case True
    with Cons.prems(2) length_filter_kinds [of ss] show ?thesis by simp
  next
    case False
    with Cons.prems have "s \<in> set ss" by simp
    from Cons.IH [OF this Cons.prems(2)] show ?thesis by simp
  qed
qed

lemma other_kind_never_returns:
  assumes s: "s \<in> set (get_states_dae (dae self))" "type_s s = UNKOWN"
  shows "write_local_states_known self f \<noteq> Some (Inr r)"
    and "\<not> some_assignment_malformed self \<Longrightarrow> write_local_states_known self f = None"
proof -
  let ?n = "length (get_states_dae (dae self))"
  let ?f0 = "f_write (f_write (snd (snd (write_local_states_ode (get_states_dae (dae self)) 1 []
                 (f_write f (tab3 @ ''% ODE and algebraic states:'' @ nl))))) nl)
               (tab3 @ ''% Assigment states:'' @ nl)"
  have short: "length (ode_algebraic_ids self) + length (assignment_ids self) < ?n"
    using length_filter_kinds_less [OF s]
    by (simp add: ode_algebraic_ids_def assignment_ids_def)
  have no_order: "write_local_states_known self f \<noteq> Some (Inr r)" for r
  proof
    assume run: "write_local_states_known self f = Some (Inr r)"
    obtain known f' where r: "r = (known, f')" by (cases r)
    from write_local_states_known_prefix [OF run [unfolded r]]
    obtain added where a: "known = ode_algebraic_ids self @ added" "distinct added"
        "set added \<subseteq> set (assignment_ids self)"
      by blast
    from run r obtain f1 where
      w: "write_local_states_while self ?n (ode_algebraic_ids self) ?f0 = Some (Inr (known, f1))"
      by (auto simp: write_local_states_known_unfold split: option.splits sum.splits)
    from while_Inr_length [OF w] have full: "length known = ?n" by blast
    have "length added = card (set added)"
      using a(2) by (simp add: distinct_card)
    also have "\<dots> \<le> card (set (assignment_ids self))"
      using a(3) by (simp add: card_mono)
    also have "\<dots> \<le> length (assignment_ids self)"
      by (rule card_length)
    finally have "length known \<le> length (ode_algebraic_ids self) + length (assignment_ids self)"
      using a(1) by simp
    with short full show False by simp
  qed
  then show "write_local_states_known self f \<noteq> Some (Inr r)" .
  show "write_local_states_known self f = None" if ok: "\<not> some_assignment_malformed self"
  proof (cases "write_local_states_known self f")
    case None
    then show ?thesis .
  next
    case (Some res)
    show ?thesis
    proof (cases res)
      case (Inl ef)
      with Some obtain r' where
        w: "write_local_states_while self ?n (ode_algebraic_ids self) ?f0 = Some r'"
        and r': "\<exists>ef. r' = Inl ef"
        by (auto simp: write_local_states_known_unfold split: option.splits sum.splits)
      from while_Inl_malformed [OF w] r' ok show ?thesis by blast
    next
      case (Inr r)
      with Some no_order [of r] show ?thesis by simp
    qed
  qed
qed




subsection \<open>Determinism\<close>








section \<open>Malformed formulas: proofs\<close>

lemma set_dropWhile_keeps: "x \<in> set xs \<Longrightarrow> \<not> P x \<Longrightarrow> x \<in> set (dropWhile P xs)"
  by (induction xs) auto

lemma lexer_rejects:
  "x \<in> set s \<Longrightarrow> \<not> in_grammar x \<Longrightarrow> lexer s = Inl MalformedExpression"
proof (induction s rule: lexer.induct)
  case 1
  then show ?case by simp
next
  case (2 c cs)
  note bad = \<open>\<not> in_grammar x\<close>
  show ?case
  proof (cases "x = c")
    case True
    with bad show ?thesis by (simp add: in_grammar_def)
  next
    case False
    with "2.prems" have xcs: "x \<in> set cs" by simp
    from bad have nx: "\<not> is_name_char x" "\<not> is_digit x" "x \<noteq> CHR ''.''"
      by (auto simp: in_grammar_def is_name_char_def)
    consider (space) "is_space c"
      | (name) "\<not> is_space c" "is_name_start c"
      | (digit) "\<not> is_space c" "\<not> is_name_start c" "is_digit c"
      | (point) "\<not> is_space c" "\<not> is_name_start c" "\<not> is_digit c" "c = CHR ''.''"
      | (op) "\<not> is_space c" "\<not> is_name_start c" "\<not> is_digit c" "c \<noteq> CHR ''.''"
          "is_op_char c"
      | (other) "\<not> is_space c" "\<not> is_name_start c" "\<not> is_digit c" "c \<noteq> CHR ''.''"
          "\<not> is_op_char c"
      by blast
    then show ?thesis
    proof cases
      case space
      with "2.IH"(1) [OF space xcs bad] show ?thesis by simp
    next
      case name
      have "x \<in> set (dropWhile is_name_char cs)"
        using xcs nx(1) by (rule set_dropWhile_keeps)
      from "2.IH"(2) [OF name this bad] name show ?thesis by simp
    next
      case digit
      have xr: "x \<in> set (dropWhile is_digit cs)"
        using xcs nx(2) by (rule set_dropWhile_keeps)
      then obtain d r' where r: "dropWhile is_digit cs = d # r'"
        by (cases "dropWhile is_digit cs") auto
      show ?thesis
      proof (cases "d = CHR ''.''")
        case True
        with xr r nx(3) have "x \<in> set r'" by auto
        then have "x \<in> set (dropWhile is_digit r')"
          using nx(2) by (rule set_dropWhile_keeps)
        from "2.IH"(3) [OF digit refl refl r True this bad] digit r True
        show ?thesis by simp
      next
        case False
        from "2.IH"(4) [OF digit refl refl r False xr bad] digit r False
        show ?thesis by simp
      qed
    next
      case point
      from xcs obtain d r where cs: "cs = d # r" by (cases cs) auto
      show ?thesis
      proof (cases "is_digit d")
        case True
        with xcs cs nx(2) have "x \<in> set r" by auto
        then have "x \<in> set (dropWhile is_digit r)"
          using nx(2) by (rule set_dropWhile_keeps)
        from "2.IH"(5) [OF point(1,2,3,4) cs True this bad] point cs True
        show ?thesis by simp
      next
        case False
        with point cs show ?thesis by simp
      qed
    next
      case op
      from "2.IH"(6) [OF op xcs bad] op show ?thesis by simp
    next
      case other
      then show ?thesis by simp
    qed
  qed
qed

lemma tokenize_rejects:
  assumes "\<exists>c \<in> set math_expr. \<not> in_grammar c"
  shows "tokenize math_expr = Inl MalformedExpression" "\<not> tokenizes math_expr"
  using assms lexer_rejects by (auto simp: tokenize_def tokenizes_def)

section \<open>The output file: proofs\<close>

lemma closed_f_write [simp]: "closed (f_write f s) = closed f"
  by (simp add: f_write_def)

lemma closed_write_warning [simp]: "closed (write_warning f n) = closed f"
  by (simp add: write_warning_def Let_def)

lemma closed_write_class_header [simp]: "closed (write_class_header self f) = closed f"
  by (simp add: write_class_header_def Let_def)

lemma closed_write_constructor [simp]: "closed (write_constructor self f) = closed f"
  by (simp add: write_constructor_def Let_def)

lemma closed_write_default_parameters_loop [simp]:
  "closed (write_default_parameters_loop ps f) = closed f"
  by (induction ps arbitrary: f) simp_all

lemma closed_write_default_parameters [simp]:
  "closed (write_default_parameters self f) = closed f"
  by (simp add: write_default_parameters_def Let_def)

lemma closed_write_initial_conditions_loop [simp]:
  "closed (write_initial_conditions_loop ss f) = closed f"
  by (induction ss arbitrary: f) simp_all

lemma closed_write_initial_conditions [simp]:
  "closed (write_initial_conditions self f) = closed f"
  by (simp add: write_initial_conditions_def Let_def)

lemma closed_write_mass_matrix_rows [simp]:
  "closed (write_mass_matrix_rows m i i_max f) = closed f"
proof (induction m i i_max f rule: write_mass_matrix_rows.induct)
  case (1 m i i_max f)
  show ?case
  proof (cases "i < i_max")
    case True
    from "1.IH" [OF True refl refl refl refl refl] True show ?thesis
      by (subst write_mass_matrix_rows.simps) (simp add: Let_def)
  next
    case False
    then show ?thesis by (subst write_mass_matrix_rows.simps) simp
  qed
qed

lemma closed_write_mass_matrix [simp]: "closed (write_mass_matrix self f) = closed f"
  by (simp add: write_mass_matrix_def Let_def)

lemma closed_write_simulation_options_loop [simp]:
  "closed (write_simulation_options_loop opts ks f) = closed f"
  by (induction ks arbitrary: f) (simp_all add: Let_def)

lemma closed_write_simulation_options [simp]:
  "closed (write_simulation_options self f) = closed f"
  by (simp add: write_simulation_options_def Let_def)

lemma closed_write_simout_states [simp]: "closed (write_simout_states ss f) = closed f"
  by (induction ss arbitrary: f) simp_all

lemma closed_write_simout_parameters [simp]:
  "closed (write_simout_parameters ps f) = closed f"
  by (induction ps arbitrary: f) simp_all

lemma closed_write_plot_subplots [simp]:
  "closed (write_plot_subplots ss x y i f) = closed f"
  by (induction ss arbitrary: i f) (simp_all add: Let_def)

lemma closed_write_local_states_ode [simp]:
  "closed (snd (snd (write_local_states_ode ss i known f))) = closed f"
  by (induction ss i known f rule: write_local_states_ode.induct) simp_all

lemma scan_Inr_closed:
  assumes "write_local_states_scan self ss known f = Inr (known', f')"
  shows "closed f' = closed f"
  using assms by (induction rule: scan_Inr_induct) simp_all

lemma scan_Inl_closed:
  "write_local_states_scan self ss known f = Inl (e, f') \<Longrightarrow> closed f' = closed f"
proof (induction ss arbitrary: known f)
  case Nil
  then show ?case by simp
next
  case (Cons state rest)
  show ?case
  proof (cases "type_s state = ASSIGMENT \<and> id_s state \<notin> set known")
    case False
    with Cons.prems have "write_local_states_scan self rest known f = Inl (e, f')"
      by (auto split: if_splits)
    then show ?thesis by (rule Cons.IH)
  next
    case True
    show ?thesis
    proof (cases "get_states self (equation state)")
      case (Inl e')
      with True Cons.prems show ?thesis by simp
    next
      case deps: (Inr deps)
      show ?thesis
      proof (cases "list_all (\<lambda>elem. elem \<in> set known) deps")
        case False
        with True deps Cons.prems
        have "write_local_states_scan self rest known f = Inl (e, f')" by simp
        then show ?thesis by (rule Cons.IH)
      next
        case all: True
        show ?thesis
        proof (cases "string2matlab self (equation state)")
          case (Inl e')
          with True deps all Cons.prems show ?thesis by simp
        next
          case (Inr eq)
          with True deps all Cons.prems
          have "write_local_states_scan self rest (known @ [id_s state])
                  (f_write f (tab3 @ id_s state @ '' = '' @ eq @ '';'' @ nl)) = Inl (e, f')"
            by simp
          from Cons.IH [OF this] show ?thesis by simp
        qed
      qed
    qed
  qed
qed

lemma while_closed_aux:
  assumes run: "write_local_states_while self n known f = Some r"
  shows "closed (case r of Inl ef \<Rightarrow> snd ef | Inr kf \<Rightarrow> snd kf) = closed f"
proof (rule write_local_states_while.raw_induct
    [where P = "\<lambda>self n known f r.
       closed (case r of Inl ef \<Rightarrow> snd ef | Inr kf \<Rightarrow> snd kf) = closed f", OF _ run])
  fix while :: "Matlab \<Rightarrow> nat \<Rightarrow> string list \<Rightarrow> file_obj
      \<Rightarrow> ((error \<times> file_obj) + (string list \<times> file_obj)) option"
  fix self n known f r
  assume IH: "\<And>self n known f r. while self n known f = Some r \<Longrightarrow>
       closed (case r of Inl ef \<Rightarrow> snd ef | Inr kf \<Rightarrow> snd kf) = closed f"
  assume step: "(if length known \<noteq> n
      then case write_local_states_scan self (get_states_dae (dae self)) known f of
             Inl ef \<Rightarrow> Some (Inl ef)
           | Inr kf \<Rightarrow> while self n (fst kf) (snd kf)
      else Some (Inr (known, f))) = Some r"
  show "closed (case r of Inl ef \<Rightarrow> snd ef | Inr kf \<Rightarrow> snd kf) = closed f"
  proof (cases "length known \<noteq> n")
    case False
    with step show ?thesis by auto
  next
    case True
    with step have body:
      "(case write_local_states_scan self (get_states_dae (dae self)) known f of
          Inl ef \<Rightarrow> Some (Inl ef)
        | Inr kf \<Rightarrow> while self n (fst kf) (snd kf)) = Some r"
      by simp
    show ?thesis
    proof (cases "write_local_states_scan self (get_states_dae (dae self)) known f")
      case (Inl ef)
      obtain e f' where ef: "ef = (e, f')" by (cases ef)
      with Inl body have r: "r = Inl (e, f')" by simp
      from Inl ef have "write_local_states_scan self (get_states_dae (dae self)) known f
          = Inl (e, f')" by simp
      then have "closed f' = closed f" by (rule scan_Inl_closed)
      with r show ?thesis by simp
    next
      case (Inr kf)
      obtain known' f' where kf: "kf = (known', f')" by (cases kf)
      with Inr body have rec: "while self n known' f' = Some r" by simp
      from Inr kf have "closed f' = closed f"
        using scan_Inr_closed by blast
      with IH [OF rec] show ?thesis by simp
    qed
  qed
qed

lemma write_local_states_closed:
  assumes "write_local_states self f = Some r"
  shows "closed (file_of r) = closed f"
proof -
  let ?f0 = "f_write (f_write (snd (snd (write_local_states_ode (get_states_dae (dae self)) 1 []
                 (f_write f (tab3 @ ''% ODE and algebraic states:'' @ nl))))) nl)
               (tab3 @ ''% Assigment states:'' @ nl)"
  from assms obtain r' where w: "write_local_states_while self (length (get_states_dae (dae self)))
       (ode_algebraic_ids self) ?f0 = Some r'"
    by (auto simp: write_local_states_def write_local_states_known_unfold split: option.splits)
  from while_closed_aux [OF w]
  have c: "closed (case r' of Inl ef \<Rightarrow> snd ef | Inr kf \<Rightarrow> snd kf) = closed f" by simp
  from assms w have "r = (case r' of Inl ef \<Rightarrow> Inl ef | Inr kf \<Rightarrow> Inr (f_write (snd kf) nl))"
    by (auto simp: write_local_states_def write_local_states_known_unfold split: sum.splits)
  with c show ?thesis
    by (cases r') (auto simp: file_of_def)
qed

lemma write_ode_loop_closed:
  "closed (file_of (write_ode_loop self ss i f)) = closed f"
proof (induction ss arbitrary: i f)
  case Nil
  show ?case by (simp add: file_of_def)
next
  case (Cons item rest)
  show ?case
  proof (cases "string2matlab self (equation item)")
    case (Inl e)
    with Cons.IH [of i f] show ?thesis
      by (simp add: Let_def file_of_def)
  next
    case (Inr eq)
    with Cons.IH [of i f]
      Cons.IH [of "i + 1" "f_write f ((tab3 @ ''% der('' @ id_s item @ '')'' @ nl) @ tab3
        @ ''dx('' @ str_nat i @ '',1) = '' @ eq @ '';'' @ nl @ nl)"]
    show ?thesis
      by (simp add: Let_def)
  qed
qed

lemma then_run_SomeD:
  assumes "then_run r k = Some y"
  obtains (raised) ef where "r = Some (Inl ef)" "y = Inl ef"
    | (returned) a where "r = Some (Inr a)" "k a = Some y"
  using assms by (auto simp: then_run_def split: option.splits sum.splits)

lemma file_of_simps [simp]: "file_of (Inl (e, f)) = f" "file_of (Inr f) = f"
  by (simp_all add: file_of_def)

lemma write_ode_closed:
  assumes "write_ode self f = Some r"
  shows "closed (file_of r) = closed f"
  using assms unfolding write_ode_def Let_def
proof (cases rule: then_run_SomeD)
  case (raised ef)
  from write_local_states_closed [OF raised(1)] raised(2) show ?thesis
    by simp
next
  case (returned f1)
  from write_local_states_closed [OF returned(1)] have c1: "closed f1 = closed f" by simp
  from write_ode_loop_closed [of self "get_states_dae (dae self)" 1 f1] c1 returned(2)
  show ?thesis
    by (cases "write_ode_loop self (get_states_dae (dae self)) 1 f1") auto
qed

lemma write_simout_2_struct_closed:
  assumes "write_simout_2_struct self f = Some r"
  shows "closed (file_of r) = closed f"
  using assms unfolding write_simout_2_struct_def Let_def
proof (cases rule: then_run_SomeD)
  case (raised ef)
  from write_local_states_closed [OF raised(1)] raised(2) show ?thesis
    by simp
next
  case (returned f1)
  from write_local_states_closed [OF returned(1)] have c1: "closed f1 = closed f" by simp
  with returned(2) show ?thesis by auto
qed

lemma write_plot_contexts_closed:
  "write_plot_contexts cs f = Some f' \<Longrightarrow> closed f' = closed f"
proof (induction cs arbitrary: f)
  case Nil
  then show ?case by simp
next
  case (Cons c cs)
  obtain context' states where c: "c = (context', states)" by (cases c)
  from Cons.prems c obtain y where
    "write_plot_contexts cs
       (write_plot_subplots states (int (ceil_sqrt_from 0 (length states))) y 0
         (f_write f (tab3 @ ''figure('' @ sq @ ''Name'' @ sq @ '','' @ sq @ context'
                               @ sq @ '');'' @ nl))) = Some f'"
    by (auto simp: Let_def split: option.splits)
  from Cons.IH [OF this] show ?case by simp
qed

lemma write_plot_closed:
  assumes "write_plot self f = Some r"
  shows "closed (file_of r) = closed f"
  using assms
  by (auto simp: write_plot_def Let_def split: option.splits dest!: write_plot_contexts_closed)

lemma export_class_closed:
  assumes "export_class self = Some r"
  shows "case r of Inl ef \<Rightarrow> \<not> closed (snd ef) | Inr pf \<Rightarrow> closed (snd pf)"
  using assms unfolding export_class_def Let_def
proof (cases rule: then_run_SomeD)
  case (raised ef)
  from write_ode_closed [OF raised(1)] raised(2) show ?thesis
    by (cases ef) (simp add: open_w_def)
next
  case ode: (returned f1)
  from write_ode_closed [OF ode(1)] have c1: "\<not> closed f1" by (simp add: open_w_def)
  from ode(2) show ?thesis
  proof (cases rule: then_run_SomeD)
    case (raised ef)
    from write_simout_2_struct_closed [OF raised(1)] raised(2) c1 show ?thesis
      by (cases ef) simp
  next
    case simout: (returned f2)
    from write_simout_2_struct_closed [OF simout(1)] c1 have c2: "\<not> closed f2" by simp
    from simout(2) show ?thesis
    proof (cases rule: then_run_SomeD)
      case (raised ef)
      from write_plot_closed [OF raised(1)] raised(2) c2 show ?thesis
        by (cases ef) simp
    next
      case (returned f3)
      then show ?thesis by (auto simp: f_close_def)
    qed
  qed
qed

lemma export_example_closed:
  "\<exists>p f. export_example self = Some (Inr (p, f)) \<and> closed f"
  by (simp add: export_example_def Let_def f_close_def)

lemma write_ode_loop_Inr_tokenizes:
  "write_ode_loop self ss i f = Inr f' \<Longrightarrow>
     \<forall>s \<in> set ss. type_s s = ODE \<or> type_s s = ALGEBRAIC \<longrightarrow> tokenizes (equation s)"
proof (induction ss arbitrary: i f)
  case Nil
  show ?case by simp
next
  case (Cons item rest)
  show ?case
  proof (cases "type_s item = ODE \<or> type_s item = ALGEBRAIC")
    case False
    with Cons.prems have "write_ode_loop self rest i f = Inr f'"
      by (simp add: Let_def)
    from Cons.IH [OF this] False show ?thesis by simp
  next
    case t: True
    with Cons.prems obtain eq where eq: "string2matlab self (equation item) = Inr eq"
      by (cases "string2matlab self (equation item)") (auto simp: Let_def)
    then have tok: "tokenizes (equation item)"
      using string2matlab_Inr_iff by blast
    from t eq Cons.prems obtain f1 where "write_ode_loop self rest (i + 1) f1 = Inr f'"
      by (auto simp: Let_def)
    from Cons.IH [OF this] tok show ?thesis by simp
  qed
qed

lemma write_local_states_Inr_tokenizes:
  assumes ids: "distinct (state_ids self)"
    and run: "write_local_states self f = Some (Inr f')"
  shows "\<forall>s \<in> set (get_states_dae (dae self)). type_s s = ASSIGMENT \<longrightarrow> tokenizes (equation s)"
proof (intro ballI impI)
  fix s assume s: "s \<in> set (get_states_dae (dae self))" "type_s s = ASSIGMENT"
  show "tokenizes (equation s)"
  proof (rule ccontr)
    assume bad: "\<not> tokenizes (equation s)"
    have inj: "inj_on id_s (set (get_states_dae (dae self)))"
      using ids by (simp add: state_ids_def distinct_map)
    have "stuck_ids self {id_s s}"
      unfolding stuck_ids_def
    proof (intro conjI ballI impI)
      from s(1) show "\<exists>s' \<in> set (get_states_dae (dae self)). id_s s' \<in> {id_s s}" by blast
    next
      fix s' assume s': "s' \<in> set (get_states_dae (dae self))" "id_s s' \<in> {id_s s}"
      then have "id_s s' = id_s s" by simp
      with inj s'(1) s(1) have eq: "s' = s" by (auto dest: inj_onD)
      with s(2) show "type_s s' = ASSIGMENT" by simp
      from eq bad
      show "\<not> tokenizes (equation s') \<or> (\<exists>d \<in> dependencies_of self s'. d \<in> {id_s s})"
        by simp
    qed
    from stuck_never_returns(1) [OF this] run show False
      by (auto simp: write_local_states_Some_iff)
  qed
qed

lemma write_local_states_Inr_kinds:
  assumes run: "write_local_states self f = Some (Inr f')"
  shows "\<forall>s \<in> set (get_states_dae (dae self)). type_s s \<noteq> UNKOWN"
proof (intro ballI notI)
  fix s assume s: "s \<in> set (get_states_dae (dae self))" "type_s s = UNKOWN"
  from run obtain known where "write_local_states_known self f = Some (Inr (known, f'))"
    by (auto simp: write_local_states_Some_iff)
  with other_kind_never_returns(1) [OF s] show False by blast
qed

lemma export_class_Inr_tokenizes:
  assumes ids: "distinct (state_ids self)"
    and run: "export_class self = Some (Inr r)"
  shows "\<forall>s \<in> set (get_states_dae (dae self)). tokenizes (equation s)"
  using run unfolding export_class_def Let_def
proof (cases rule: then_run_SomeD)
  case (raised ef)
  then show ?thesis by simp
next
  case (returned f1)
  from returned(1) show ?thesis unfolding write_ode_def Let_def
  proof (cases rule: then_run_SomeD)
    case (raised ef)
    then show ?thesis by simp
  next
    case states: (returned f2)
    from write_local_states_Inr_tokenizes [OF ids states(1)]
    have a: "\<forall>s \<in> set (get_states_dae (dae self)).
        type_s s = ASSIGMENT \<longrightarrow> tokenizes (equation s)" .
    from states(2) obtain f3
      where "write_ode_loop self (get_states_dae (dae self)) 1 f2 = Inr f3"
      by (cases "write_ode_loop self (get_states_dae (dae self)) 1 f2") auto
    from write_ode_loop_Inr_tokenizes [OF this]
    have b: "\<forall>s \<in> set (get_states_dae (dae self)).
        type_s s = ODE \<or> type_s s = ALGEBRAIC \<longrightarrow> tokenizes (equation s)" .
    from write_local_states_Inr_kinds [OF states(1)]
    have c: "\<forall>s \<in> set (get_states_dae (dae self)). type_s s \<noteq> UNKOWN" .
    show ?thesis
    proof
      fix s assume s: "s \<in> set (get_states_dae (dae self))"
      with c have "type_s s \<noteq> UNKOWN" by blast
      then have "type_s s = ODE \<or> type_s s = ALGEBRAIC \<or> type_s s = ASSIGMENT"
        by (cases "type_s s") simp_all
      with a b s show "tokenizes (equation s)" by blast
    qed
  qed
qed

text \<open>
  Propagation of a lexical error.  The tokenizer as modelled from section 4.1 rejects a
  formula with a character outside the grammar; \<open>string2matlab\<close> and \<open>get_states\<close>
  catch nothing and fail with the same error; and the export of a model (with distinct
  state ids) that has such an equation never completes.  Which formulas the standard
  library itself rejects is not decided here: only what the source does with the error.
\<close>

lemma malformed_expression_aborts:
  assumes "\<exists>c \<in> set math_expr. \<not> in_grammar c"
  shows "tokenize math_expr = Inl MalformedExpression
       \<and> string2matlab self math_expr = Inl MalformedExpression
       \<and> get_states self math_expr = Inl MalformedExpression
       \<and> (distinct (state_ids self) \<and> math_expr \<in> equation ` set (get_states_dae (dae self))
            \<longrightarrow> (\<forall>r. export_class self \<noteq> Some (Inr r)))"
proof (intro conjI impI allI)
  from tokenize_rejects(1) [OF assms]
  show tok: "tokenize math_expr = Inl MalformedExpression" .
  from tok show "string2matlab self math_expr = Inl MalformedExpression"
    by (simp add: string2matlab_def)
  from tok show "get_states self math_expr = Inl MalformedExpression"
    by (simp add: get_states_def)
next
  fix r
  assume h: "distinct (state_ids self) \<and> math_expr \<in> equation ` set (get_states_dae (dae self))"
  show "export_class self \<noteq> Some (Inr r)"
  proof
    assume "export_class self = Some (Inr r)"
    with h have "\<forall>s \<in> set (get_states_dae (dae self)). tokenizes (equation s)"
      using export_class_Inr_tokenizes by blast
    with h have "tokenizes math_expr" by blast
    with tokenize_rejects(2) [OF assms] show False by simp
  qed
qed

lemma unterminated_string_bad: "\<exists>c \<in> set unterminated_string. \<not> in_grammar c"
  by (simp add: unterminated_string_def in_grammar_def lex_char_defs)

lemma malformed_expression_aborts_example:
  "\<not> in_grammar (CHR 0x22) \<and> CHR 0x22 \<in> set unterminated_string
   \<and> tokenize unterminated_string = Inl MalformedExpression
   \<and> string2matlab model_malformed unterminated_string = Inl MalformedExpression
   \<and> get_states model_malformed unterminated_string = Inl MalformedExpression
   \<and> distinct (state_ids model_malformed)
   \<and> unterminated_string \<in> equation ` set (get_states_dae (dae model_malformed))
   \<and> export_class model_malformed \<noteq> Some (Inr (''out/m.m'', f_close (open_w ''out/m.m'')))"
proof -
  have a: "\<not> in_grammar (CHR 0x22)" "CHR 0x22 \<in> set unterminated_string"
    by (simp_all add: unterminated_string_def in_grammar_def lex_char_defs)
  have b: "distinct (state_ids model_malformed)"
    "unterminated_string \<in> equation ` set (get_states_dae (dae model_malformed))"
    by (simp_all add: model_malformed_def model_defs state_ids_def)
  from malformed_expression_aborts [OF unterminated_string_bad, of model_malformed] a b
  show ?thesis by simp
qed

text \<open>
  C8, as the code has it.  \<open>export_example\<close> always returns with its file closed, and
  \<open>export_class\<close> closes its file when it returns; but when the translator (or the
  resolver's tokenizer) raises during \<open>export_class\<close>, the call is left with the file
  still open: there is no handler, and \<open>f.close()\<close> is the last statement.
\<close>

theorem output_file_closed_on_return_only:
  "(\<exists>p f. export_example self = Some (Inr (p, f)) \<and> closed f)
   \<and> (\<forall>p f. export_class self = Some (Inr (p, f)) \<longrightarrow> closed f)
   \<and> (\<forall>e f. export_class self = Some (Inl (e, f)) \<longrightarrow> \<not> closed f)"
proof (intro conjI allI impI)
  show "\<exists>p f. export_example self = Some (Inr (p, f)) \<and> closed f"
    by (rule export_example_closed)
next
  fix p f assume "export_class self = Some (Inr (p, f))"
  from export_class_closed [OF this] show "closed f" by simp
next
  fix e f assume "export_class self = Some (Inl (e, f))"
  from export_class_closed [OF this] show "\<not> closed f" by simp
qed

lemma model_malformed_export:
  "\<exists>f. export_class model_malformed = Some (Inl (MalformedExpression, f))"
  by (simp add: export_class_def then_run_def write_ode_def write_local_states_def
      write_local_states_known_def write_local_states_while.simps
      model_malformed_def unterminated_string_def model_defs eval_defs Let_def)

lemma model_v1_a1_a2_export:
  "\<exists>f. export_class model_v1_a1_a2 = Some (Inr (''out/m.m'', f))"
  by (simp add: export_class_def then_run_def write_ode_def write_simout_2_struct_def
      write_plot_def write_local_states_def
      write_local_states_known_def write_local_states_while.simps
      model_v1_a1_a2_def model_defs eval_defs Let_def ceil_sqrt_from.simps subplot_rows.simps)

theorem output_file_closed_on_return_only_witness:
  "map_option (map_sum fst fst) (export_class model_v1_a1_a2) = Some (Inr ''out/m.m'')
   \<and> map_option (map_sum fst (\<lambda>pf. closed (snd pf))) (export_class model_v1_a1_a2)
       = Some (Inr True)
   \<and> map_option (map_sum (\<lambda>ef. closed (snd ef)) fst) (export_class model_malformed)
       = Some (Inl False)"
proof -
  from model_v1_a1_a2_export obtain f
    where ok: "export_class model_v1_a1_a2 = Some (Inr (''out/m.m'', f))" ..
  from model_malformed_export obtain f'
    where bad: "export_class model_malformed = Some (Inl (MalformedExpression, f'))" ..
  from output_file_closed_on_return_only [of model_v1_a1_a2] ok have "closed f" by blast
  moreover from output_file_closed_on_return_only [of model_malformed] bad
  have "\<not> closed f'" by blast
  ultimately show ?thesis using ok bad by simp
qed

text \<open>
  C8 as stated fails: the ODE state of this model has an unterminated string for its
  equation, \<open>string2matlab\<close> raises inside \<open>write_ode\<close>, and \<open>export_class\<close> ends with
  the error and an open file.
\<close>

theorem export_class_leaves_file_open:
  "map_option (map_sum (\<lambda>ef. (fst ef, closed (snd ef))) fst) (export_class model_malformed)
     = Some (Inl (MalformedExpression, False))"
proof -
  from model_malformed_export obtain f
    where bad: "export_class model_malformed = Some (Inl (MalformedExpression, f))" ..
  from export_class_closed [OF bad] have "\<not> closed f" by simp
  with bad show ?thesis by simp
qed

section \<open>Unknown identifiers: proofs\<close>

lemma content_f_write [simp]: "content (f_write f s) = content f @ s"
  by (simp add: f_write_def)













end
